theory Spec2Isabelle
  imports Complex_Main "HOL-Library.Multiset"
begin

section \<open>FreeYOLO: decoding and selection of detections\<close>

text \<open>
  A shallow embedding of \<^verbatim>\<open>models/yolo_free/yolo_free.py\<close> (class \<^verbatim>\<open>FreeYOLO\<close>):
  \<^verbatim>\<open>generate_anchors\<close>, \<^verbatim>\<open>decode_boxes\<close>, \<^verbatim>\<open>post_process\<close> and
  \<^verbatim>\<open>inference_single_image\<close>.

  \<^item> A float tensor entry is a \<^typ>\<open>real\<close>: arithmetic is exact, so rounding, overflow to
    infinity, underflow to zero and NaN of 32-bit floats are outside this first model.
    Where they decide a property (the order of the decoded corners, the range of the
    returned coordinates), the decoding and what follows it are modelled a second time
    with the coordinates as float32 values, in the subsections named float32.
  \<^item> A tensor of shape \<^verbatim>\<open>[M, 4]\<close> is a list of 4-tuples, one of shape \<^verbatim>\<open>[M, 2]\<close> a list
    of pairs, one of shape \<^verbatim>\<open>[M, 1]\<close> a list of reals and one of shape \<^verbatim>\<open>[M, C]\<close> a list of
    rows; the first dimension is the list's length.
  \<^item> An exception of Python or of a tensor operation is a value \<open>Inl e\<close>.
  \<^item> The backbone, neck, feature pyramid, heads and the three prediction convolutions are
    outside this file: the model starts from the tensors the prediction convolutions
    return for each level.
\<close>

subsection \<open>Errors\<close>

datatype py_error = IndexError | RuntimeError

definition bind_err :: "'e + 'a \<Rightarrow> ('a \<Rightarrow> 'e + 'b) \<Rightarrow> 'e + 'b" where
  "bind_err m f = (case m of Inl e \<Rightarrow> Inl e | Inr x \<Rightarrow> f x)"

text \<open>\<^verbatim>\<open>xs[i]\<close> for an index \<open>i \<ge> 0\<close>: IndexError out of range.\<close>

definition py_index :: "'a list \<Rightarrow> nat \<Rightarrow> py_error + 'a" where
  "py_index xs i = (if i < length xs then Inr (xs ! i) else Inl IndexError)"

subsection \<open>The detector's configuration\<close>

text \<open>
  The fields that \<^verbatim>\<open>__init__\<close> stores and the inference path reads. \<^verbatim>\<open>stride\<close> is
  \<^verbatim>\<open>cfg['stride']\<close>, a list of integers such as \<^verbatim>\<open>[8, 16, 32]\<close>; \<^verbatim>\<open>topk\<close> is a Python
  integer; \<^verbatim>\<open>num_classes\<close> is the number of output channels of the class convolution.
  \<^verbatim>\<open>__init__\<close> stores them as they are given.
\<close>

record FreeYOLO =
  stride :: "int list"
  num_classes :: nat
  conf_thresh :: real
  nms_thresh :: real
  topk :: int
  no_decode :: bool

type_synonym point = "real \<times> real"
type_synonym reg = "real \<times> real \<times> real \<times> real"
type_synonym box = "real \<times> real \<times> real \<times> real"

subsection \<open>Tensor operations used by the source\<close>

definition sigmoid :: "real \<Rightarrow> real" where
  "sigmoid x = 1 / (1 + exp (- x))"

text \<open>
  Broadcasting of the first dimension in an elementwise operation of two tensors: equal
  sizes are paired positionally, a size of 1 is repeated, anything else raises.
\<close>

definition broadcast_rows :: "'a list \<Rightarrow> 'b list \<Rightarrow> py_error + ('a \<times> 'b) list" where
  "broadcast_rows xs ys =
     (if length xs = length ys then Inr (zip xs ys)
      else if length xs = 1 then Inr (map (\<lambda>y. (hd xs, y)) ys)
      else if length ys = 1 then Inr (map (\<lambda>x. (x, hd ys)) xs)
      else Inl RuntimeError)"

text \<open>\<^verbatim>\<open>torch.arange(n)\<close> and \<^verbatim>\<open>torch.meshgrid([a, b])\<close> (matrix indexing: the first
  result repeats \<open>a\<close> along the columns, the second repeats \<open>b\<close> along the rows).\<close>

definition arange :: "nat \<Rightarrow> nat list" where
  "arange n = [0..<n]"

definition meshgrid :: "nat list \<Rightarrow> nat list \<Rightarrow> nat list list \<times> nat list list" where
  "meshgrid a b = (map (\<lambda>i. map (\<lambda>j. i) b) a, map (\<lambda>i. map (\<lambda>j. j) b) a)"

text \<open>\<^verbatim>\<open>torch.stack([a, b], dim=-1)\<close> of two \<^verbatim>\<open>[H, W]\<close> tensors, and \<^verbatim>\<open>.view(-1, 2)\<close>.\<close>

definition stack_last :: "'a list list \<Rightarrow> 'a list list \<Rightarrow> ('a \<times> 'a) list list" where
  "stack_last a b = map (\<lambda>(ra, rb). zip ra rb) (zip a b)"

definition view_flat :: "'a list list \<Rightarrow> 'a list" where
  "view_flat t = concat t"

subsection \<open>\<^verbatim>\<open>generate_anchors\<close>\<close>

definition generate_anchors :: "FreeYOLO \<Rightarrow> nat \<Rightarrow> nat \<times> nat \<Rightarrow> py_error + point list" where
  "generate_anchors self level fmp_size =
     (case fmp_size of (fmp_h, fmp_w) \<Rightarrow>
        (case meshgrid (arange fmp_h) (arange fmp_w) of (anchor_y, anchor_x) \<Rightarrow>
           let anchor_xy = map (\<lambda>(x, y). (real x + 0.5, real y + 0.5))
                             (view_flat (stack_last anchor_x anchor_y))
           in bind_err (py_index (stride self) level) (\<lambda>s.
                Inr (map (\<lambda>(x, y). (x * real_of_int s, y * real_of_int s)) anchor_xy))))"

subsection \<open>\<^verbatim>\<open>decode_boxes\<close>\<close>

text \<open>One row of \<^verbatim>\<open>decode_boxes\<close>: the centre, the size, then the two corners
  concatenated. The arithmetic is that of the reals; \<open>decode_box_f32\<close> below is the same
  row with float32's overflow, infinities and NaN.\<close>

definition decode_box :: "int \<Rightarrow> point \<Rightarrow> reg \<Rightarrow> box" where
  "decode_box strd a r =
     (case a of (ax, ay) \<Rightarrow> case r of (tx, ty, tw, th) \<Rightarrow>
        let ctr_x = ax + tx * real_of_int strd;
            ctr_y = ay + ty * real_of_int strd;
            box_w = exp tw * real_of_int strd;
            box_h = exp th * real_of_int strd
        in (ctr_x - 0.5 * box_w, ctr_y - 0.5 * box_h,
            ctr_x + 0.5 * box_w, ctr_y + 0.5 * box_h))"

definition decode_boxes :: "point list \<Rightarrow> reg list \<Rightarrow> int \<Rightarrow> py_error + box list" where
  "decode_boxes anchors pred_regs strd =
     bind_err (broadcast_rows anchors pred_regs) (\<lambda>rows.
       Inr (map (\<lambda>(a, r). decode_box strd a r) rows))"

subsection \<open>Tensor operations used by \<^verbatim>\<open>post_process\<close>\<close>

text \<open>
  \<^verbatim>\<open>t.sort(descending=True)\<close> returns the sorted values and the indices they came from.
  The call does not ask for a stable sort, so which permutation is returned among equal
  values is the library's choice: the model takes the permutation as a parameter \<open>srt\<close>
  and \<open>argsort_desc_spec\<close> states what the library guarantees of it (a permutation of the
  indices along which the values do not increase).
\<close>

definition argsort_desc_spec :: "(real list \<Rightarrow> nat list) \<Rightarrow> bool" where
  "argsort_desc_spec srt \<longleftrightarrow>
     (\<forall>xs. distinct (srt xs) \<and> set (srt xs) = {..<length xs} \<and>
           sorted_wrt (\<lambda>i j. xs ! j \<le> xs ! i) (srt xs))"

definition sort_descending :: "(real list \<Rightarrow> nat list) \<Rightarrow> real list \<Rightarrow> real list \<times> nat list" where
  "sort_descending srt xs = (map (\<lambda>i. xs ! i) (srt xs), srt xs)"

text \<open>
  Two permutations that meet \<open>argsort_desc_spec\<close>. The first is the stable one, which
  lists equal values by ascending index. The second is not stable: it is the stable one
  with, for more than 16 values of which the first and the middle one listed are equal,
  these two exchanged. Of 18 equal values it lists index 9 first, as does the library's
  CPU sort when it is an introsort: up to 16 values that is an insertion sort and
  stable, beyond it begins by moving a median of three values to the front, which for
  equal values is the middle one.
\<close>

definition stable_argsort_desc :: "real list \<Rightarrow> nat list" where
  "stable_argsort_desc xs = sort_key (\<lambda>i. - (xs ! i)) [0..<length xs]"


text \<open>The slice \<^verbatim>\<open>xs[:n]\<close>: a negative \<open>n\<close> counts from the end.\<close>

definition slice_to :: "int \<Rightarrow> 'a list \<Rightarrow> 'a list" where
  "slice_to n xs = (if 0 \<le> n then take (nat n) xs else take (length xs - nat (- n)) xs)"

text \<open>Indexing with a boolean mask, \<^verbatim>\<open>xs[keep]\<close>.\<close>

definition mask_select :: "'a list \<Rightarrow> bool list \<Rightarrow> 'a list" where
  "mask_select xs keep = map fst (filter snd (zip xs keep))"

text \<open>Indexing with a tensor of indices, \<^verbatim>\<open>xs[idxs]\<close>: IndexError when one is out of
  range.\<close>

definition index_rows :: "'a list \<Rightarrow> nat list \<Rightarrow> py_error + 'a list" where
  "index_rows xs idxs =
     (if list_all (\<lambda>i. i < length xs) idxs then Inr (map (\<lambda>i. xs ! i) idxs)
      else Inl IndexError)"

text \<open>\<^verbatim>\<open>torch.div(idxs, c, rounding_mode='floor')\<close> on non-negative integers: dividing
  an element by zero raises.\<close>

definition floor_div :: "nat list \<Rightarrow> nat \<Rightarrow> py_error + nat list" where
  "floor_div idxs c =
     (if c = 0 \<and> idxs \<noteq> [] then Inl RuntimeError else Inr (map (\<lambda>i. i div c) idxs))"

text \<open>\<^verbatim>\<open>torch.cat\<close> along the first dimension: an empty list of tensors raises.\<close>

definition torch_cat :: "'a list list \<Rightarrow> py_error + 'a list" where
  "torch_cat ts = (if ts = [] then Inl RuntimeError else Inr (concat ts))"

subsection \<open>\<^verbatim>\<open>post_process\<close>: one level\<close>

text \<open>Line 138: \<^verbatim>\<open>torch.sqrt(obj_pred_i.sigmoid() * cls_pred_i.sigmoid()).flatten()\<close>, the
  product of an \<^verbatim>\<open>[M, 1]\<close> and an \<^verbatim>\<open>[M, C]\<close> tensor, flattened row by row.\<close>

definition fuse_scores :: "real list \<Rightarrow> real list list \<Rightarrow> py_error + real list" where
  "fuse_scores obj_pred_i cls_pred_i =
     bind_err (broadcast_rows (map sigmoid obj_pred_i) (map (map sigmoid) cls_pred_i))
       (\<lambda>rows. Inr (concat (map (\<lambda>(ob, cs). map (\<lambda>c. sqrt (ob * c)) cs) rows)))"

text \<open>Lines 140 to 146: the number kept, the sort, and the two slices.
  \<open>n_reg\<close> is \<^verbatim>\<open>reg_pred_i.size(0)\<close>.\<close>

definition topk_candidates ::
  "(real list \<Rightarrow> nat list) \<Rightarrow> int \<Rightarrow> real list \<Rightarrow> nat \<Rightarrow> real list \<times> nat list" where
  "topk_candidates srt tk scores_i n_reg =
     (let num_topk = min tk (int n_reg)
      in case sort_descending srt scores_i of (predicted_prob, topk_idxs) \<Rightarrow>
           (slice_to num_topk predicted_prob, slice_to num_topk topk_idxs))"

text \<open>The body of the loop of \<^verbatim>\<open>post_process\<close> (lines 136 to 167) for one level; the
  result is what is appended to \<^verbatim>\<open>all_scores\<close>, \<^verbatim>\<open>all_labels\<close> and \<^verbatim>\<open>all_bboxes\<close>.\<close>

definition post_process_level ::
  "(real list \<Rightarrow> nat list) \<Rightarrow> FreeYOLO \<Rightarrow> nat \<Rightarrow>
   real list \<Rightarrow> real list list \<Rightarrow> reg list \<Rightarrow> point list \<Rightarrow>
   py_error + (real list \<times> nat list \<times> box list)" where
  "post_process_level srt self level obj_pred_i cls_pred_i reg_pred_i anchors_i =
     bind_err (fuse_scores obj_pred_i cls_pred_i) (\<lambda>scores_i.
       case topk_candidates srt (topk self) scores_i (length reg_pred_i) of
         (topk_scores, topk_idxs0) \<Rightarrow>
           let keep_idxs = map (\<lambda>s. conf_thresh self < s) topk_scores;
               scores = mask_select topk_scores keep_idxs;
               topk_idxs = mask_select topk_idxs0 keep_idxs
           in bind_err (floor_div topk_idxs (num_classes self)) (\<lambda>anchor_idxs.
                let labels = map (\<lambda>i. i mod num_classes self) topk_idxs
                in bind_err (index_rows reg_pred_i anchor_idxs) (\<lambda>reg_sel.
                   bind_err (index_rows anchors_i anchor_idxs) (\<lambda>anchors_sel.
                   bind_err (py_index (stride self) level) (\<lambda>strd.
                   bind_err (decode_boxes anchors_sel reg_sel strd) (\<lambda>bboxes.
                     Inr (scores, labels, bboxes)))))))"

subsection \<open>Multiclass non-maximum suppression\<close>

text \<open>
  Modelled from the spec: \<^verbatim>\<open>multiclass_nms\<close> of \<^verbatim>\<open>utils/nms.py\<close>, which
  \<^verbatim>\<open>post_process\<close> imports and whose source is missing. The definitions below follow
  section 4.5 of the specification: the area of a box whose
  width or height is not positive is 0, the IoU is the intersection area over the union
  area and is 0 when the union area is 0; per class, the candidates are sorted by score
  descending (ties by index ascending) and walked greedily, each kept box removing the
  remaining boxes whose IoU with it exceeds the threshold; the kept candidates of all
  classes are concatenated in class order.
\<close>

text \<open>Modelled from the spec: the area of a box, which \<^verbatim>\<open>utils/nms.py\<close> would compute;
  a box whose width or height is not positive contributes area 0.\<close>

definition box_area :: "box \<Rightarrow> real" where
  "box_area b = (case b of (x1, y1, x2, y2) \<Rightarrow> max 0 (x2 - x1) * max 0 (y2 - y1))"

text \<open>Modelled from the spec: the intersection area of two boxes (0 when they do not
  overlap), for the IoU of \<^verbatim>\<open>utils/nms.py\<close>.\<close>

definition inter_area :: "box \<Rightarrow> box \<Rightarrow> real" where
  "inter_area a b =
     (case a of (ax1, ay1, ax2, ay2) \<Rightarrow> case b of (bx1, by1, bx2, by2) \<Rightarrow>
        max 0 (min ax2 bx2 - max ax1 bx1) * max 0 (min ay2 by2 - max ay1 by1))"

text \<open>Modelled from the spec: the IoU of \<^verbatim>\<open>utils/nms.py\<close>, intersection area over union
  area, 0 when the union area is 0.\<close>

definition iou :: "box \<Rightarrow> box \<Rightarrow> real" where
  "iou a b =
     (let inter = inter_area a b;
          union = box_area a + box_area b - inter
      in if union = 0 then 0 else inter / union)"

text \<open>Modelled from the spec: the greedy walk of \<^verbatim>\<open>utils/nms.py\<close> over the sorted indices
  of one class; the first remaining index is kept and removes every other remaining
  index whose box has an IoU with it above the threshold.\<close>

fun nms_greedy :: "real \<Rightarrow> box list \<Rightarrow> nat list \<Rightarrow> nat list" where
  "nms_greedy thr bboxes [] = []"
| "nms_greedy thr bboxes (i # rest) =
     i # nms_greedy thr bboxes (filter (\<lambda>j. \<not> thr < iou (bboxes ! i) (bboxes ! j)) rest)"

text \<open>Modelled from the spec: the suppression of \<^verbatim>\<open>utils/nms.py\<close> for one class \<open>c\<close>; its
  candidates are gathered, sorted by score descending (ties by index ascending) and
  walked greedily.\<close>

definition nms_class :: "real list \<Rightarrow> nat list \<Rightarrow> box list \<Rightarrow> real \<Rightarrow> nat \<Rightarrow> nat list" where
  "nms_class scores labels bboxes thr c =
     nms_greedy thr bboxes
       (sort_key (\<lambda>i. - (scores ! i)) (filter (\<lambda>i. labels ! i = c) [0..<length bboxes]))"

text \<open>Modelled from the spec: the indices that \<^verbatim>\<open>multiclass_nms\<close> of \<^verbatim>\<open>utils/nms.py\<close>
  retains, class after class.\<close>

definition nms_keep :: "real list \<Rightarrow> nat list \<Rightarrow> box list \<Rightarrow> real \<Rightarrow> nat \<Rightarrow> nat list" where
  "nms_keep scores labels bboxes thr n_cls =
     concat (map (nms_class scores labels bboxes thr) [0..<n_cls])"

text \<open>Modelled from the spec: \<^verbatim>\<open>multiclass_nms\<close> of \<^verbatim>\<open>utils/nms.py\<close>, returning the
  scores, labels and boxes of the retained candidates.\<close>

definition multiclass_nms ::
  "real list \<Rightarrow> nat list \<Rightarrow> box list \<Rightarrow> real \<Rightarrow> nat \<Rightarrow> real list \<times> nat list \<times> box list" where
  "multiclass_nms scores labels bboxes thr n_cls =
     (let keep = nms_keep scores labels bboxes thr n_cls
      in (map (\<lambda>i. scores ! i) keep, map (\<lambda>i. labels ! i) keep, map (\<lambda>i. bboxes ! i) keep))"

subsection \<open>\<^verbatim>\<open>post_process\<close>\<close>

fun post_process_loop ::
  "(real list \<Rightarrow> nat list) \<Rightarrow> FreeYOLO \<Rightarrow> nat \<Rightarrow>
   (real list \<times> real list list \<times> reg list \<times> point list) list \<Rightarrow>
   py_error + (real list \<times> nat list \<times> box list) list" where
  "post_process_loop srt self level [] = Inr []"
| "post_process_loop srt self level ((obj_pred_i, cls_pred_i, reg_pred_i, anchors_i) # rest) =
     bind_err (post_process_level srt self level obj_pred_i cls_pred_i reg_pred_i anchors_i)
       (\<lambda>out. bind_err (post_process_loop srt self (Suc level) rest)
          (\<lambda>outs. Inr (out # outs)))"

definition post_process ::
  "(real list \<Rightarrow> nat list) \<Rightarrow> FreeYOLO \<Rightarrow>
   real list list \<Rightarrow> real list list list \<Rightarrow> reg list list \<Rightarrow> point list list \<Rightarrow>
   py_error + (box list \<times> real list \<times> nat list)" where
  "post_process srt self obj_preds cls_preds reg_preds anchors =
     bind_err (post_process_loop srt self 0
                 (zip obj_preds (zip cls_preds (zip reg_preds anchors)))) (\<lambda>outs.
     bind_err (torch_cat (map (\<lambda>(s, l, b). s) outs)) (\<lambda>scores.
     bind_err (torch_cat (map (\<lambda>(s, l, b). l) outs)) (\<lambda>labels.
     bind_err (torch_cat (map (\<lambda>(s, l, b). b) outs)) (\<lambda>bboxes.
       case multiclass_nms scores labels bboxes (nms_thresh self) (num_classes self) of
         (scores', labels', bboxes') \<Rightarrow> Inr (bboxes', scores', labels')))))"

subsection \<open>\<^verbatim>\<open>inference_single_image\<close>\<close>

text \<open>
  What the three prediction convolutions return at one level: tensors of shape
  \<^verbatim>\<open>[1, 1, H, W]\<close>, \<^verbatim>\<open>[1, C, H, W]\<close> and \<^verbatim>\<open>[1, 4, H, W]\<close>, read as functions of channel,
  row and column, with the feature map's size \<open>H\<close>, \<open>W\<close> that they share.
\<close>

record level_preds =
  lv_h :: nat
  lv_w :: nat
  lv_obj :: "nat \<Rightarrow> nat \<Rightarrow> nat \<Rightarrow> real"
  lv_cls :: "nat \<Rightarrow> nat \<Rightarrow> nat \<Rightarrow> real"
  lv_reg :: "nat \<Rightarrow> nat \<Rightarrow> nat \<Rightarrow> real"

text \<open>\<^verbatim>\<open>t[0].permute(1, 2, 0).contiguous().view(-1, K)\<close>: one row per cell, the cells row
  by row; \<open>f r w\<close> is the row of channels of the cell in row \<open>r\<close> and column \<open>w\<close>.\<close>

definition permute_view :: "nat \<Rightarrow> nat \<Rightarrow> (nat \<Rightarrow> nat \<Rightarrow> 'a) \<Rightarrow> 'a list" where
  "permute_view H W f = view_flat (map (\<lambda>r. map (\<lambda>w. f r w) [0..<W]) [0..<H])"

definition view_obj :: "level_preds \<Rightarrow> real list" where
  "view_obj lv = permute_view (lv_h lv) (lv_w lv) (\<lambda>r w. lv_obj lv 0 r w)"

definition view_cls :: "FreeYOLO \<Rightarrow> level_preds \<Rightarrow> real list list" where
  "view_cls self lv =
     permute_view (lv_h lv) (lv_w lv) (\<lambda>r w. map (\<lambda>c. lv_cls lv c r w) [0..<num_classes self])"

definition view_reg :: "level_preds \<Rightarrow> reg list" where
  "view_reg lv =
     permute_view (lv_h lv) (lv_w lv)
       (\<lambda>r w. (lv_reg lv 0 r w, lv_reg lv 1 r w, lv_reg lv 2 r w, lv_reg lv 3 r w))"

text \<open>The anchors of the levels; the source generates them in the loop over the levels,
  and only when \<^verbatim>\<open>no_decode\<close> is off.\<close>

fun anchors_loop :: "FreeYOLO \<Rightarrow> nat \<Rightarrow> level_preds list \<Rightarrow> py_error + point list list" where
  "anchors_loop self level [] = Inr []"
| "anchors_loop self level (lv # rest) =
     bind_err (generate_anchors self level (lv_h lv, lv_w lv)) (\<lambda>a.
       bind_err (anchors_loop self (Suc level) rest) (\<lambda>as. Inr (a # as)))"

text \<open>\<^verbatim>\<open>torch.cat([reg, obj, cls], dim=-1)\<close>: the rows are joined; different numbers of
  rows raise.\<close>

definition cat_last :: "reg list \<Rightarrow> real list \<Rightarrow> real list list \<Rightarrow> py_error + real list list" where
  "cat_last regs objs clss =
     (if length regs = length objs \<and> length objs = length clss
      then Inr (map (\<lambda>((tx, ty, tw, th), ob, cs). [tx, ty, tw, th, ob] @ cs)
                  (zip regs (zip objs clss)))
      else Inl RuntimeError)"

text \<open>\<^verbatim>\<open>bboxes /= max(img_h, img_w)\<close> and \<^verbatim>\<open>bboxes.clip(0., 1.)\<close>, on one row of real
  coordinates; \<open>normalize_box_f32\<close> below is the same on float32 coordinates, where a
  NaN passes the clip and a division by 0 gives an infinity or NaN.\<close>

definition clip :: "real \<Rightarrow> real \<Rightarrow> real \<Rightarrow> real" where
  "clip lo hi v = min hi (max lo v)"

definition normalize_box :: "nat \<Rightarrow> nat \<Rightarrow> box \<Rightarrow> box" where
  "normalize_box img_h img_w b =
     (case b of (x1, y1, x2, y2) \<Rightarrow>
        let d = real (max img_h img_w)
        in (clip 0 1 (x1 / d), clip 0 1 (y1 / d), clip 0 1 (x2 / d), clip 0 1 (y2 / d)))"

datatype inference_out =
  Raw "real list list"
| Detections "box list" "real list" "nat list"

definition inference_single_image ::
  "(real list \<Rightarrow> nat list) \<Rightarrow> FreeYOLO \<Rightarrow> level_preds list \<Rightarrow> nat \<Rightarrow> nat \<Rightarrow>
   py_error + inference_out" where
  "inference_single_image srt self preds img_h img_w =
     (let all_obj_preds = map view_obj preds;
          all_cls_preds = map (view_cls self) preds;
          all_reg_preds = map view_reg preds
      in if no_decode self then
           bind_err (torch_cat all_obj_preds) (\<lambda>obj_preds.
           bind_err (torch_cat all_cls_preds) (\<lambda>cls_preds.
           bind_err (torch_cat all_reg_preds) (\<lambda>reg_preds.
           bind_err (cat_last reg_preds (map sigmoid obj_preds) (map (map sigmoid) cls_preds))
             (\<lambda>outputs. Inr (Raw outputs)))))
         else
           bind_err (anchors_loop self 0 preds) (\<lambda>all_anchors.
           bind_err (post_process srt self all_obj_preds all_cls_preds all_reg_preds all_anchors)
             (\<lambda>(bboxes, scores, labels).
                Inr (Detections (map (normalize_box img_h img_w) bboxes) scores labels))))"

subsection \<open>Concrete inputs\<close>

text \<open>The defaults of \<^verbatim>\<open>__init__\<close> with two classes and the strides 8, 16 and 32.\<close>

definition cfg0 :: FreeYOLO where
  "cfg0 = \<lparr>stride = [8, 16, 32], num_classes = 2, conf_thresh = 0.05, nms_thresh = 0.6,
           topk = 1000, no_decode = False\<rparr>"

subsection \<open>Auxiliary notions for the statements\<close>

text \<open>The flat indices of one level that \<^verbatim>\<open>post_process\<close> keeps: the slice of the sorted
  indices, filtered by the confidence threshold (\<open>M\<close> is the number of cells).\<close>

definition level_kept :: "(real list \<Rightarrow> nat list) \<Rightarrow> FreeYOLO \<Rightarrow> real list \<Rightarrow> nat \<Rightarrow> nat list" where
  "level_kept srt self scores M =
     filter (\<lambda>i. conf_thresh self < scores ! i) (slice_to (min (topk self) (int M)) (srt scores))"

text \<open>
  The rows that the claim on the no-decode mode describes for one level: for each cell,
  row by row, the four regression values as they are, the sigmoid of the objectness and
  the sigmoids of the class scores. This definition follows the specification's words
  (section 4.6) and is compared with \<open>inference_single_image\<close> below.
\<close>

definition raw_rows :: "FreeYOLO \<Rightarrow> level_preds \<Rightarrow> real list list" where
  "raw_rows self lv =
     permute_view (lv_h lv) (lv_w lv)
       (\<lambda>r w. [lv_reg lv 0 r w, lv_reg lv 1 r w, lv_reg lv 2 r w, lv_reg lv 3 r w,
                sigmoid (lv_obj lv 0 r w)] @
               map (\<lambda>c. sigmoid (lv_cls lv c r w)) [0..<num_classes self])"

text \<open>One level of a single cell whose predictions are all 0, a configuration with a
  negative \<^verbatim>\<open>topk\<close> and an NMS threshold above 1, and one with \<^verbatim>\<open>no_decode\<close> set.\<close>

definition lvl0 :: level_preds where
  "lvl0 = \<lparr>lv_h = 1, lv_w = 1, lv_obj = (\<lambda>c r w. 0), lv_cls = (\<lambda>c r w. 0), lv_reg = (\<lambda>c r w. 0)\<rparr>"

definition cfg_bad :: FreeYOLO where
  "cfg_bad = cfg0\<lparr>topk := - 1, nms_thresh := 2\<rparr>"

definition cfg_raw :: FreeYOLO where
  "cfg_raw = cfg0\<lparr>no_decode := True\<rparr>"

subsection \<open>float32 values\<close>

text \<open>
  A float32 value is finite, an infinity or NaN. \<open>rnd\<close> is the float32 that an operation
  returns for the real result \<open>x\<close>, as far as the properties below depend on it: an
  infinity from half an ulp above the largest float32 on, 0 up to half the smallest
  subnormal, and \<open>x\<close> itself in between (rounding within the range is not modelled; it
  is monotone and keeps 0 and the bounds of an interval of float32 values). The
  operations follow IEEE 754 on the special values: NaN propagates, the difference of
  equal infinities and the product of 0 and an infinity are NaN, and every comparison
  with NaN is false.
\<close>

datatype f32 = Fin real | PInf | NInf | NaN

definition f32_overflow :: real where
  "f32_overflow = (2 - 1 / 2 ^ 24) * 2 ^ 127"

definition f32_tiny :: real where
  "f32_tiny = 1 / 2 ^ 150"

definition rnd :: "real \<Rightarrow> f32" where
  "rnd x = (if f32_overflow \<le> x then PInf
            else if x \<le> - f32_overflow then NInf
            else if \<bar>x\<bar> \<le> f32_tiny then Fin 0
            else Fin x)"

fun f_neg :: "f32 \<Rightarrow> f32" where
  "f_neg (Fin x) = Fin (- x)"
| "f_neg PInf = NInf"
| "f_neg NInf = PInf"
| "f_neg NaN = NaN"

fun f_add :: "f32 \<Rightarrow> f32 \<Rightarrow> f32" where
  "f_add NaN b = NaN"
| "f_add a NaN = NaN"
| "f_add (Fin x) (Fin y) = rnd (x + y)"
| "f_add PInf NInf = NaN"
| "f_add NInf PInf = NaN"
| "f_add PInf b = PInf"
| "f_add a PInf = PInf"
| "f_add NInf b = NInf"
| "f_add a NInf = NInf"

definition f_sub :: "f32 \<Rightarrow> f32 \<Rightarrow> f32" where
  "f_sub a b = f_add a (f_neg b)"

definition inf_of_sign :: "real \<Rightarrow> f32" where
  "inf_of_sign x = (if x = 0 then NaN else if 0 < x then PInf else NInf)"

fun f_mul :: "f32 \<Rightarrow> f32 \<Rightarrow> f32" where
  "f_mul NaN b = NaN"
| "f_mul a NaN = NaN"
| "f_mul (Fin x) (Fin y) = rnd (x * y)"
| "f_mul (Fin x) PInf = inf_of_sign x"
| "f_mul (Fin x) NInf = inf_of_sign (- x)"
| "f_mul PInf (Fin y) = inf_of_sign y"
| "f_mul NInf (Fin y) = inf_of_sign (- y)"
| "f_mul PInf PInf = PInf"
| "f_mul NInf NInf = PInf"
| "f_mul PInf NInf = NInf"
| "f_mul NInf PInf = NInf"

fun f_exp :: "f32 \<Rightarrow> f32" where
  "f_exp NaN = NaN"
| "f_exp PInf = PInf"
| "f_exp NInf = Fin 0"
| "f_exp (Fin x) = rnd (exp x)"

fun f_le :: "f32 \<Rightarrow> f32 \<Rightarrow> bool" where
  "f_le NaN b = False"
| "f_le a NaN = False"
| "f_le NInf b = True"
| "f_le a PInf = True"
| "f_le (Fin x) (Fin y) = (x \<le> y)"
| "f_le PInf b = False"
| "f_le a NInf = False"

subsection \<open>\<^verbatim>\<open>decode_boxes\<close> in float32\<close>

text \<open>One row of \<^verbatim>\<open>decode_boxes\<close> (lines 113 to 119) on a finite grid point and a finite
  regression, each operation in float32; the stride is a small integer and exact.\<close>

type_synonym boxf = "f32 \<times> f32 \<times> f32 \<times> f32"

definition decode_box_f32 :: "int \<Rightarrow> point \<Rightarrow> reg \<Rightarrow> boxf" where
  "decode_box_f32 strd a r =
     (case a of (ax, ay) \<Rightarrow> case r of (tx, ty, tw, th) \<Rightarrow>
        let s = Fin (real_of_int strd);
            ctr_x = f_add (Fin ax) (f_mul (Fin tx) s);
            ctr_y = f_add (Fin ay) (f_mul (Fin ty) s);
            box_w = f_mul (f_exp (Fin tw)) s;
            box_h = f_mul (f_exp (Fin th)) s
        in (f_sub ctr_x (f_mul (Fin 0.5) box_w), f_sub ctr_y (f_mul (Fin 0.5) box_h),
            f_add ctr_x (f_mul (Fin 0.5) box_w), f_add ctr_y (f_mul (Fin 0.5) box_h)))"

text \<open>\<^verbatim>\<open>decode_boxes\<close> on tensors of finite values, each row decoded in float32.\<close>

definition decode_boxes_f32 :: "point list \<Rightarrow> reg list \<Rightarrow> int \<Rightarrow> py_error + boxf list" where
  "decode_boxes_f32 anchors pred_regs strd =
     bind_err (broadcast_rows anchors pred_regs) (\<lambda>rows.
       Inr (map (\<lambda>(a, r). decode_box_f32 strd a r) rows))"

subsection \<open>\<^verbatim>\<open>post_process\<close> and \<^verbatim>\<open>inference_single_image\<close> in float32\<close>

text \<open>
  The same functions with the decoded boxes as float32 values. The selection of the
  candidates is the one of \<open>post_process_level\<close>; the scores stay reals (their bounds do
  not depend on rounding); the regression and the anchors are finite values, and the
  boxes are what \<open>decode_boxes_f32\<close> makes of them.
\<close>

definition post_process_level_f32 ::
  "(real list \<Rightarrow> nat list) \<Rightarrow> FreeYOLO \<Rightarrow> nat \<Rightarrow>
   real list \<Rightarrow> real list list \<Rightarrow> reg list \<Rightarrow> point list \<Rightarrow>
   py_error + (real list \<times> nat list \<times> boxf list)" where
  "post_process_level_f32 srt self level obj_pred_i cls_pred_i reg_pred_i anchors_i =
     bind_err (fuse_scores obj_pred_i cls_pred_i) (\<lambda>scores_i.
       case topk_candidates srt (topk self) scores_i (length reg_pred_i) of
         (topk_scores, topk_idxs0) \<Rightarrow>
           let keep_idxs = map (\<lambda>s. conf_thresh self < s) topk_scores;
               scores = mask_select topk_scores keep_idxs;
               topk_idxs = mask_select topk_idxs0 keep_idxs
           in bind_err (floor_div topk_idxs (num_classes self)) (\<lambda>anchor_idxs.
                let labels = map (\<lambda>i. i mod num_classes self) topk_idxs
                in bind_err (index_rows reg_pred_i anchor_idxs) (\<lambda>reg_sel.
                   bind_err (index_rows anchors_i anchor_idxs) (\<lambda>anchors_sel.
                   bind_err (py_index (stride self) level) (\<lambda>strd.
                   bind_err (decode_boxes_f32 anchors_sel reg_sel strd) (\<lambda>bboxes.
                     Inr (scores, labels, bboxes)))))))"

text \<open>Modelled from the spec: the suppression test of \<^verbatim>\<open>utils/nms.py\<close> on float32 boxes.
  For two boxes of finite coordinates it is the test of section 4.5, IoU above the
  threshold; the specification says nothing of a box with an infinite or NaN coordinate,
  and such a box is taken to have no IoU above any threshold, so that it neither
  suppresses nor is suppressed.\<close>

definition finite_box :: "boxf \<Rightarrow> box option" where
  "finite_box b =
     (case b of (Fin x1, Fin y1, Fin x2, Fin y2) \<Rightarrow> Some (x1, y1, x2, y2) | _ \<Rightarrow> None)"

definition iou_exceeds :: "real \<Rightarrow> boxf \<Rightarrow> boxf \<Rightarrow> bool" where
  "iou_exceeds thr a b =
     (case finite_box a of None \<Rightarrow> False
      | Some a' \<Rightarrow> (case finite_box b of None \<Rightarrow> False | Some b' \<Rightarrow> thr < iou a' b'))"

text \<open>Modelled from the spec: \<open>nms_greedy\<close>, \<open>nms_class\<close>, \<open>nms_keep\<close> and \<open>multiclass_nms\<close>
  of section 4.5 once more, on float32 boxes with the test \<open>iou_exceeds\<close>.\<close>

fun nms_greedy_f32 :: "real \<Rightarrow> boxf list \<Rightarrow> nat list \<Rightarrow> nat list" where
  "nms_greedy_f32 thr bboxes [] = []"
| "nms_greedy_f32 thr bboxes (i # rest) =
     i # nms_greedy_f32 thr bboxes (filter (\<lambda>j. \<not> iou_exceeds thr (bboxes ! i) (bboxes ! j)) rest)"

definition nms_class_f32 :: "real list \<Rightarrow> nat list \<Rightarrow> boxf list \<Rightarrow> real \<Rightarrow> nat \<Rightarrow> nat list" where
  "nms_class_f32 scores labels bboxes thr c =
     nms_greedy_f32 thr bboxes
       (sort_key (\<lambda>i. - (scores ! i)) (filter (\<lambda>i. labels ! i = c) [0..<length bboxes]))"

definition nms_keep_f32 :: "real list \<Rightarrow> nat list \<Rightarrow> boxf list \<Rightarrow> real \<Rightarrow> nat \<Rightarrow> nat list" where
  "nms_keep_f32 scores labels bboxes thr n_cls =
     concat (map (nms_class_f32 scores labels bboxes thr) [0..<n_cls])"

definition multiclass_nms_f32 ::
  "real list \<Rightarrow> nat list \<Rightarrow> boxf list \<Rightarrow> real \<Rightarrow> nat \<Rightarrow> real list \<times> nat list \<times> boxf list" where
  "multiclass_nms_f32 scores labels bboxes thr n_cls =
     (let keep = nms_keep_f32 scores labels bboxes thr n_cls
      in (map (\<lambda>i. scores ! i) keep, map (\<lambda>i. labels ! i) keep, map (\<lambda>i. bboxes ! i) keep))"

fun post_process_loop_f32 ::
  "(real list \<Rightarrow> nat list) \<Rightarrow> FreeYOLO \<Rightarrow> nat \<Rightarrow>
   (real list \<times> real list list \<times> reg list \<times> point list) list \<Rightarrow>
   py_error + (real list \<times> nat list \<times> boxf list) list" where
  "post_process_loop_f32 srt self level [] = Inr []"
| "post_process_loop_f32 srt self level ((obj_pred_i, cls_pred_i, reg_pred_i, anchors_i) # rest) =
     bind_err (post_process_level_f32 srt self level obj_pred_i cls_pred_i reg_pred_i anchors_i)
       (\<lambda>out. bind_err (post_process_loop_f32 srt self (Suc level) rest)
          (\<lambda>outs. Inr (out # outs)))"

definition post_process_f32 ::
  "(real list \<Rightarrow> nat list) \<Rightarrow> FreeYOLO \<Rightarrow>
   real list list \<Rightarrow> real list list list \<Rightarrow> reg list list \<Rightarrow> point list list \<Rightarrow>
   py_error + (boxf list \<times> real list \<times> nat list)" where
  "post_process_f32 srt self obj_preds cls_preds reg_preds anchors =
     bind_err (post_process_loop_f32 srt self 0
                 (zip obj_preds (zip cls_preds (zip reg_preds anchors)))) (\<lambda>outs.
     bind_err (torch_cat (map (\<lambda>(s, l, b). s) outs)) (\<lambda>scores.
     bind_err (torch_cat (map (\<lambda>(s, l, b). l) outs)) (\<lambda>labels.
     bind_err (torch_cat (map (\<lambda>(s, l, b). b) outs)) (\<lambda>bboxes.
       case multiclass_nms_f32 scores labels bboxes (nms_thresh self) (num_classes self) of
         (scores', labels', bboxes') \<Rightarrow> Inr (bboxes', scores', labels')))))"

text \<open>\<^verbatim>\<open>bboxes /= max(img_h, img_w)\<close> on one float32 coordinate, the divisor a non-negative
  integer: a finite value divided by 0 is an infinity of its sign, and \<open>0 / 0\<close> is NaN.
  \<^verbatim>\<open>bboxes.clip(0., 1.)\<close> on one coordinate: NumPy's clip returns NaN for NaN.\<close>

fun f_div_scalar :: "f32 \<Rightarrow> real \<Rightarrow> f32" where
  "f_div_scalar NaN d = NaN"
| "f_div_scalar PInf d = PInf"
| "f_div_scalar NInf d = NInf"
| "f_div_scalar (Fin x) d = (if d = 0 then inf_of_sign x else rnd (x / d))"

fun f_clip :: "f32 \<Rightarrow> f32" where
  "f_clip NaN = NaN"
| "f_clip PInf = Fin 1"
| "f_clip NInf = Fin 0"
| "f_clip (Fin x) = Fin (min 1 (max 0 x))"

definition normalize_box_f32 :: "nat \<Rightarrow> nat \<Rightarrow> boxf \<Rightarrow> boxf" where
  "normalize_box_f32 img_h img_w b =
     (case b of (x1, y1, x2, y2) \<Rightarrow>
        let d = real (max img_h img_w)
        in (f_clip (f_div_scalar x1 d), f_clip (f_div_scalar y1 d),
            f_clip (f_div_scalar x2 d), f_clip (f_div_scalar y2 d)))"

datatype inference_out_f32 =
  Raw_f32 "real list list"
| Detections_f32 "boxf list" "real list" "nat list"

definition inference_single_image_f32 ::
  "(real list \<Rightarrow> nat list) \<Rightarrow> FreeYOLO \<Rightarrow> level_preds list \<Rightarrow> nat \<Rightarrow> nat \<Rightarrow>
   py_error + inference_out_f32" where
  "inference_single_image_f32 srt self preds img_h img_w =
     (let all_obj_preds = map view_obj preds;
          all_cls_preds = map (view_cls self) preds;
          all_reg_preds = map view_reg preds
      in if no_decode self then
           bind_err (torch_cat all_obj_preds) (\<lambda>obj_preds.
           bind_err (torch_cat all_cls_preds) (\<lambda>cls_preds.
           bind_err (torch_cat all_reg_preds) (\<lambda>reg_preds.
           bind_err (cat_last reg_preds (map sigmoid obj_preds) (map (map sigmoid) cls_preds))
             (\<lambda>outputs. Inr (Raw_f32 outputs)))))
         else
           bind_err (anchors_loop self 0 preds) (\<lambda>all_anchors.
           bind_err (post_process_f32 srt self all_obj_preds all_cls_preds all_reg_preds all_anchors)
             (\<lambda>(bboxes, scores, labels).
                Inr (Detections_f32 (map (normalize_box_f32 img_h img_w) bboxes) scores labels))))"

text \<open>A coordinate that is in \<open>[0, 1]\<close> or NaN, and what \<open>post_process_level_f32\<close> appends
  for one level being well formed: the three results have one length and every score is
  above the confidence threshold and at most 1.\<close>

definition unit_or_nan :: "f32 \<Rightarrow> bool" where
  "unit_or_nan c = (case c of NaN \<Rightarrow> True | Fin v \<Rightarrow> 0 \<le> v \<and> v \<le> 1 | _ \<Rightarrow> False)"

definition level_ok_f32 :: "FreeYOLO \<Rightarrow> real list \<times> nat list \<times> boxf list \<Rightarrow> bool" where
  "level_ok_f32 self out =
     (case out of (s, l, b) \<Rightarrow>
        length s = length l \<and> length l = length b \<and>
        (\<forall>x\<in>set s. conf_thresh self < x \<and> x \<le> 1))"

text \<open>One level of a single cell with the finite regression \<open>(1e38, 0, 100, 0)\<close>.\<close>

definition lvl_big :: level_preds where
  "lvl_big = \<lparr>lv_h = 1, lv_w = 1, lv_obj = (\<lambda>c r w. 0), lv_cls = (\<lambda>c r w. 0),
              lv_reg = (\<lambda>c r w. if c = 0 then 10 ^ 38 else if c = 2 then 100 else 0)\<rparr>"



section \<open>Properties\<close>

subsection \<open>Flattened grids\<close>

lemma concat_uniform_nth:
  "\<forall>xs\<in>set xss. length xs = n \<Longrightarrow> i < length xss \<Longrightarrow> j < n \<Longrightarrow>
   concat xss ! (i * n + j) = xss ! i ! j"
proof (induction xss arbitrary: i)
  case Nil
  then show ?case by simp
next
  case (Cons xs xss)
  show ?case
  proof (cases i)
    case 0
    with Cons.prems show ?thesis by (simp add: nth_append)
  next
    case (Suc k)
    have "concat xss ! (k * n + j) = xss ! k ! j"
      using Cons.IH [of k] Cons.prems Suc by simp
    moreover have "Suc k * n + j = length xs + (k * n + j)"
      using Cons.prems by simp
    ultimately show ?thesis using Suc by (simp add: nth_append del: mult_Suc)
  qed
qed

lemma concat_uniform_length:
  "\<forall>xs\<in>set xss. length xs = n \<Longrightarrow> length (concat xss) = length xss * n"
  by (induction xss) auto

lemma permute_view_length: "length (permute_view H W f) = H * W"
  by (simp add: permute_view_def view_flat_def concat_uniform_length [where n = W])

lemma permute_view_nth:
  assumes "r < H" "w < W"
  shows "permute_view H W f ! (r * W + w) = f r w"
proof -
  let ?xss = "map (\<lambda>r. map (\<lambda>w. f r w) [0..<W]) [0..<H]"
  have "concat ?xss ! (r * W + w) = ?xss ! r ! w"
    by (rule concat_uniform_nth) (use assms in auto)
  then show ?thesis using assms by (simp add: permute_view_def view_flat_def)
qed

lemma anchors_as_view:
  "view_flat (stack_last (snd (meshgrid (arange H) (arange W)))
                         (fst (meshgrid (arange H) (arange W))))
   = permute_view H W (\<lambda>r w. (w, r))"
proof -
  have row: "zip xs (map (\<lambda>j. r) xs) = map (\<lambda>w. (w, r)) xs" for xs :: "nat list" and r :: nat
    by (induction xs) auto
  show ?thesis
    by (simp add: stack_last_def meshgrid_def arange_def permute_view_def zip_map_map
        zip_same_conv_map o_def row)
qed

lemma generate_anchors_eq:
  assumes "level < length (stride self)"
  shows "generate_anchors self level (H, W) =
           Inr (map (\<lambda>(x, y). ((real x + 0.5) * real_of_int (stride self ! level),
                                (real y + 0.5) * real_of_int (stride self ! level)))
                  (permute_view H W (\<lambda>r w. (w, r))))"
  using assms anchors_as_view [of H W]
  by (simp add: generate_anchors_def meshgrid_def py_index_def bind_err_def
      case_prod_unfold o_def)

text \<open>
  C5. For a level with feature map size \<open>(H, W)\<close> and stride \<open>s\<close>, \<open>generate_anchors\<close>
  returns exactly \<open>H * W\<close> points; the point at position \<open>row * W + col\<close> is
  \<open>((col + 0.5) * s, (row + 0.5) * s)\<close>, and the same position of a prediction tensor
  flattened by \<open>permute_view\<close> holds the channels of the cell in row \<open>row\<close> and column
  \<open>col\<close>: both are listed row by row.
\<close>

theorem generate_anchors_grid:
  assumes "level < length (stride self)"
  shows "\<exists>a. generate_anchors self level (H, W) = Inr a \<and> length a = H * W \<and>
           (\<forall>row<H. \<forall>col<W.
              a ! (row * W + col) =
                ((real col + 0.5) * real_of_int (stride self ! level),
                 (real row + 0.5) * real_of_int (stride self ! level)) \<and>
              permute_view H W f ! (row * W + col) = f row col) \<and>
           length (permute_view H W f) = H * W"
proof -
  let ?s = "real_of_int (stride self ! level)"
  let ?g = "\<lambda>(x, y). ((real x + 0.5) * ?s, (real y + 0.5) * ?s)"
  let ?a = "map ?g (permute_view H W (\<lambda>r w. (w, r)))"
  have gen: "generate_anchors self level (H, W) = Inr ?a"
    using assms by (rule generate_anchors_eq)
  have len: "length ?a = H * W"
    by (simp add: permute_view_length)
  have nth: "?a ! (row * W + col) = ((real col + 0.5) * ?s, (real row + 0.5) * ?s)"
    if "row < H" "col < W" for row col
  proof -
    have "row * W + col < H * W"
    proof -
      have "row * W + col < row * W + W" using that by simp
      also have "\<dots> = Suc row * W" by simp
      also have "\<dots> \<le> H * W" using that by (intro mult_le_mono1) simp
      finally show ?thesis .
    qed
    then show ?thesis
      using that by (simp add: permute_view_length permute_view_nth)
  qed
  show ?thesis
    using gen len nth permute_view_nth [of _ H _ W f] permute_view_length [of H W f]
    by auto
qed

theorem generate_anchors_grid_witness:
  "generate_anchors cfg0 0 (2, 2) = Inr [(4, 4), (12, 4), (4, 12), (12, 12)]"
proof -
  have lv: "0 < length (stride cfg0)" by (simp add: cfg0_def)
  obtain a where a: "generate_anchors cfg0 0 (2, 2) = Inr a" "length a = 2 * 2"
    and nth: "\<forall>row<2. \<forall>col<2. a ! (row * 2 + col) =
                ((real col + 0.5) * real_of_int (stride cfg0 ! 0),
                 (real row + 0.5) * real_of_int (stride cfg0 ! 0))"
    using generate_anchors_grid [OF lv, of 2 2 "\<lambda>r w. ()"] by blast
  have "a ! 0 = (4, 4)" using nth [rule_format, of 0 0] by (simp add: cfg0_def)
  moreover have "a ! 1 = (12, 4)" using nth [rule_format, of 0 1] by (simp add: cfg0_def)
  moreover have "a ! 2 = (4, 12)" using nth [rule_format, of 1 0] by (simp add: cfg0_def)
  moreover have "a ! 3 = (12, 12)" using nth [rule_format, of 1 1] by (simp add: cfg0_def)
  ultimately have "a = [(4, 4), (12, 4), (4, 12), (12, 12)]"
    using a(2) by (intro nth_equalityI) (auto simp: nth_Cons' less_Suc_eq numeral_eq_Suc)
  with a(1) show ?thesis by simp
qed

subsection \<open>Decoding\<close>

text \<open>
  C4. For a grid point \<open>(gx, gy)\<close>, a regression \<open>(tx, ty, tw, th)\<close> and a stride,
  \<open>decode_boxes\<close> returns at the same position the box with centre
  \<open>cx = gx + tx * stride\<close>, \<open>cy = gy + ty * stride\<close>, size \<open>w = exp tw * stride\<close>,
  \<open>h = exp th * stride\<close> and corners \<open>(cx - w/2, cy - h/2, cx + w/2, cy + h/2)\<close>;
  nothing is clamped.
\<close>

theorem decode_boxes_formula:
  assumes "length anchors = length pred_regs" and "i < length anchors"
    and "anchors ! i = (gx, gy)" and "pred_regs ! i = (tx, ty, tw, th)"
  shows "\<exists>bs. decode_boxes anchors pred_regs strd = Inr bs \<and> length bs = length anchors \<and>
           bs ! i = decode_box strd (gx, gy) (tx, ty, tw, th) \<and>
           decode_box strd (gx, gy) (tx, ty, tw, th) =
             (let cx = gx + tx * real_of_int strd; cy = gy + ty * real_of_int strd;
                  w = exp tw * real_of_int strd; h = exp th * real_of_int strd
              in (cx - w / 2, cy - h / 2, cx + w / 2, cy + h / 2))"
  using assms
  by (simp add: decode_boxes_def broadcast_rows_def bind_err_def decode_box_def Let_def)

theorem decode_boxes_formula_witness:
  "decode_boxes [(4, 4)] [(0, 0, 0, 0)] 8 = Inr [(0, 0, 8, 8)]"
proof -
  obtain bs where bs: "decode_boxes [(4, 4)] [(0, 0, 0, 0)] 8 = Inr bs"
      "length bs = length [(4::real, 4::real)]"
      "bs ! 0 = decode_box 8 (4, 4) (0, 0, 0, 0)"
      "decode_box 8 (4, 4) (0, 0, 0, 0) =
             (let cx = 4 + 0 * real_of_int 8; cy = 4 + 0 * real_of_int 8;
                  w = exp 0 * real_of_int 8; h = exp 0 * real_of_int 8
              in (cx - w / 2, cy - h / 2, cx + w / 2, cy + h / 2))"
    using decode_boxes_formula [of "[(4, 4)]" "[(0, 0, 0, 0)]" 0 4 4 0 0 0 0 8] by auto
  have "bs = [bs ! 0]" using bs(2) by (cases bs) auto
  then show ?thesis using bs by (simp add: Let_def)
qed

subsection \<open>Scores, selection and one level of \<^verbatim>\<open>post_process\<close>\<close>

lemma sigmoid_pos: "0 < sigmoid x"
  by (simp add: sigmoid_def add_pos_pos)

lemma sigmoid_less_1: "sigmoid x < 1"
  by (simp add: sigmoid_def add_pos_pos)

lemma fused_bounds: "0 < sqrt (sigmoid a * sigmoid b) \<and> sqrt (sigmoid a * sigmoid b) \<le> 1"
proof -
  have "sigmoid a * sigmoid b \<le> 1 * 1"
    using sigmoid_pos [of a] sigmoid_pos [of b] sigmoid_less_1 [of a] sigmoid_less_1 [of b]
    by (intro mult_mono) simp_all
  moreover have "0 < sigmoid a * sigmoid b"
    using sigmoid_pos [of a] sigmoid_pos [of b] by simp
  ultimately show ?thesis by simp
qed

lemma fuse_scores_eq:
  assumes "length obj = length cls"
  shows "fuse_scores obj cls =
           Inr (concat (map (\<lambda>(ob, cs). map (\<lambda>c. sqrt (sigmoid ob * sigmoid c)) cs) (zip obj cls)))"
  using assms
  by (simp add: fuse_scores_def broadcast_rows_def bind_err_def zip_map_map case_prod_unfold o_def)

lemma broadcast_rows_set:
  assumes "broadcast_rows xs ys = Inr rows" and "(x, y) \<in> set rows"
  shows "x \<in> set xs \<and> y \<in> set ys"
proof -
  consider "rows = zip xs ys" | "length xs = 1" "rows = map (\<lambda>y. (hd xs, y)) ys"
    | "length ys = 1" "rows = map (\<lambda>x. (x, hd ys)) xs"
    using assms(1) by (auto simp: broadcast_rows_def split: if_splits)
  then show ?thesis
  proof cases
    case 1
    with assms(2) show ?thesis by (auto dest: set_zip_leftD set_zip_rightD)
  next
    case 2
    then have "hd xs \<in> set xs" by (cases xs) auto
    with 2 assms(2) show ?thesis by auto
  next
    case 3
    then have "hd ys \<in> set ys" by (cases ys) auto
    with 3 assms(2) show ?thesis by auto
  qed
qed

lemma fuse_scores_range:
  assumes "fuse_scores obj cls = Inr scores" and "s \<in> set scores"
  shows "0 < s \<and> s \<le> 1"
proof -
  obtain rows where rows: "broadcast_rows (map sigmoid obj) (map (map sigmoid) cls) = Inr rows"
    and sc: "scores = concat (map (\<lambda>(ob, cs). map (\<lambda>c. sqrt (ob * c)) cs) rows)"
    using assms(1) by (auto simp: fuse_scores_def bind_err_def split: sum.splits)
  from assms(2) sc obtain ob cs c where in_rows: "(ob, cs) \<in> set rows" and c: "c \<in> set cs"
    and s: "s = sqrt (ob * c)"
    by auto
  from broadcast_rows_set [OF rows in_rows] c obtain a b where "ob = sigmoid a" "c = sigmoid b"
    by auto
  with s fused_bounds [of a b] show ?thesis by simp
qed

lemma mask_select_map:
  "mask_select (map f xs) (map (\<lambda>x. P (f x)) xs) = map f (filter (\<lambda>x. P (f x)) xs)"
  by (induction xs) (auto simp: mask_select_def)

lemma mask_select_idx:
  "mask_select xs (map (\<lambda>x. P (f x)) xs) = filter (\<lambda>x. P (f x)) xs"
  by (induction xs) (auto simp: mask_select_def)

lemma slice_to_map: "slice_to n (map f xs) = map f (slice_to n xs)"
  by (simp add: slice_to_def take_map)

lemma topk_candidates_eq:
  "topk_candidates srt tk xs n =
     (map (\<lambda>i. xs ! i) (slice_to (min tk (int n)) (srt xs)), slice_to (min tk (int n)) (srt xs))"
  by (simp add: topk_candidates_def sort_descending_def slice_to_map Let_def)

lemma set_slice_to: "set (slice_to n xs) \<subseteq> set xs"
  by (auto simp: slice_to_def dest: in_set_takeD)

lemma distinct_slice_to: "distinct xs \<Longrightarrow> distinct (slice_to n xs)"
  by (simp add: slice_to_def)

lemma argsort_set: "argsort_desc_spec srt \<Longrightarrow> set (srt xs) = {..<length xs}"
  by (simp add: argsort_desc_spec_def)

lemma argsort_distinct: "argsort_desc_spec srt \<Longrightarrow> distinct (srt xs)"
  by (simp add: argsort_desc_spec_def)

lemma argsort_sorted:
  "argsort_desc_spec srt \<Longrightarrow> sorted_wrt (\<lambda>i j. xs ! j \<le> xs ! i) (srt xs)"
  by (simp add: argsort_desc_spec_def)

lemma fused_length:
  assumes "length obj = M" "length cls = M" "\<forall>row\<in>set cls. length row = C"
  shows "length (concat (map (\<lambda>(ob, cs). map (\<lambda>c. sqrt (sigmoid ob * sigmoid c)) cs) (zip obj cls)))
           = M * C"
proof -
  have "\<forall>xs\<in>set (map (\<lambda>(ob, cs). map (\<lambda>c. sqrt (sigmoid ob * sigmoid c)) cs) (zip obj cls)).
          length xs = C"
    using assms(3) by (auto dest: set_zip_rightD)
  from concat_uniform_length [OF this] assms(1,2) show ?thesis by simp
qed

lemma fused_nth:
  assumes "length obj = M" "length cls = M" "\<forall>row\<in>set cls. length row = C"
    and "cell < M" "c < C"
  shows "concat (map (\<lambda>(ob, cs). map (\<lambda>c. sqrt (sigmoid ob * sigmoid c)) cs) (zip obj cls))
           ! (cell * C + c) = sqrt (sigmoid (obj ! cell) * sigmoid (cls ! cell ! c))"
proof -
  let ?xss = "map (\<lambda>(ob, cs). map (\<lambda>c. sqrt (sigmoid ob * sigmoid c)) cs) (zip obj cls)"
  have u: "\<forall>xs\<in>set ?xss. length xs = C"
    using assms(3) by (auto dest: set_zip_rightD)
  have "cell < length ?xss" using assms by simp
  from concat_uniform_nth [OF u this assms(5)]
  have "concat ?xss ! (cell * C + c) = ?xss ! cell ! c" .
  moreover have "length (cls ! cell) = C" using assms by simp
  ultimately show ?thesis using assms by simp
qed

lemma level_kept_set:
  "argsort_desc_spec srt \<Longrightarrow> set (level_kept srt self scores M) \<subseteq> {..<length scores}"
  using set_slice_to [of "min (topk self) (int M)" "srt scores"] argsort_set [of srt scores]
  by (auto simp: level_kept_def)

lemma level_kept_distinct:
  "argsort_desc_spec srt \<Longrightarrow> distinct (level_kept srt self scores M)"
  by (simp add: level_kept_def distinct_slice_to argsort_distinct)

lemma post_process_level_eq:
  assumes spec: "argsort_desc_spec srt"
    and lens: "length obj = M" "length cls = M" "length regs = M" "length anchors = M"
    and rows: "\<forall>row\<in>set cls. length row = num_classes self"
    and lvl: "level < length (stride self)"
    and scores: "scores = concat (map (\<lambda>(ob, cs). map (\<lambda>c. sqrt (sigmoid ob * sigmoid c)) cs)
                                    (zip obj cls))"
    and kept: "kept = level_kept srt self scores M"
  shows "post_process_level srt self level obj cls regs anchors =
           Inr (map (\<lambda>i. scores ! i) kept,
                map (\<lambda>i. i mod num_classes self) kept,
                map (\<lambda>i. decode_box (stride self ! level)
                            (anchors ! (i div num_classes self))
                            (regs ! (i div num_classes self))) kept)"
proof -
  let ?C = "num_classes self"
  have fs: "fuse_scores obj cls = Inr scores"
    using lens scores by (simp add: fuse_scores_eq)
  have len: "length scores = M * ?C"
    unfolding scores using lens(1,2) rows by (rule fused_length)
  have sub: "set kept \<subseteq> {..<M * ?C}"
    using level_kept_set [OF spec, of self scores M] len kept by simp
  let ?ti = "slice_to (min (topk self) (int M)) (srt scores)"
  have tc: "topk_candidates srt (topk self) scores (length regs) = (map (\<lambda>i. scores ! i) ?ti, ?ti)"
    using lens by (simp add: topk_candidates_eq)
  have m1: "mask_select (map (\<lambda>i. scores ! i) ?ti)
              (map (\<lambda>s. conf_thresh self < s) (map (\<lambda>i. scores ! i) ?ti)) = map (\<lambda>i. scores ! i) kept"
    using mask_select_map [of "\<lambda>i. scores ! i" ?ti "\<lambda>s. conf_thresh self < s"]
    by (simp add: kept level_kept_def o_def)
  have m2: "mask_select ?ti (map (\<lambda>s. conf_thresh self < s) (map (\<lambda>i. scores ! i) ?ti)) = kept"
    using mask_select_idx [of ?ti "\<lambda>s. conf_thresh self < s" "\<lambda>i. scores ! i"]
    by (simp add: kept level_kept_def o_def)
  have fd: "floor_div kept ?C = Inr (map (\<lambda>i. i div ?C) kept)"
  proof (cases "?C = 0")
    case True
    with sub have "kept = []" by auto
    then show ?thesis by (simp add: floor_div_def)
  next
    case False
    then show ?thesis by (simp add: floor_div_def)
  qed
  have rng: "i div ?C < M" if "i \<in> set kept" for i
  proof -
    from that sub have "i < M * ?C" by auto
    then show ?thesis by (simp add: less_mult_imp_div_less)
  qed
  have ir: "index_rows regs (map (\<lambda>i. i div ?C) kept) = Inr (map (\<lambda>i. regs ! (i div ?C)) kept)"
    using rng lens by (simp add: index_rows_def list_all_iff o_def)
  have ia: "index_rows anchors (map (\<lambda>i. i div ?C) kept) = Inr (map (\<lambda>i. anchors ! (i div ?C)) kept)"
    using rng lens by (simp add: index_rows_def list_all_iff o_def)
  have st: "py_index (stride self) level = Inr (stride self ! level)"
    using lvl by (simp add: py_index_def)
  have db: "decode_boxes (map (\<lambda>i. anchors ! (i div ?C)) kept) (map (\<lambda>i. regs ! (i div ?C)) kept)
              (stride self ! level)
            = Inr (map (\<lambda>i. decode_box (stride self ! level) (anchors ! (i div ?C))
                               (regs ! (i div ?C))) kept)"
    by (simp add: decode_boxes_def broadcast_rows_def bind_err_def zip_map_map
        zip_same_conv_map o_def)
  show ?thesis
    unfolding post_process_level_def
    by (simp add: fs tc m1 m2 fd ir ia st db bind_err_def Let_def del: map_map)
qed

lemma stable_argsort_desc_spec: "argsort_desc_spec stable_argsort_desc"
proof -
  have "sorted_wrt (\<lambda>i j. xs ! j \<le> xs ! i) (stable_argsort_desc xs)" for xs :: "real list"
  proof -
    have "sorted (map (\<lambda>i. - (xs ! i)) (stable_argsort_desc xs))"
      unfolding stable_argsort_desc_def by (rule sorted_sort_key)
    then show ?thesis by (simp add: sorted_map)
  qed
  then show ?thesis
    by (auto simp: argsort_desc_spec_def stable_argsort_desc_def)
qed

lemma sigmoid_zero: "sigmoid 0 = 1 / 2"
  by (simp add: sigmoid_def)

lemma sqrt_quarter: "sqrt (1 / 4) = 1 / 2"
proof -
  have "sqrt ((1 / 2) * (1 / 2)) = \<bar>1 / 2 :: real\<bar>" by (rule real_sqrt_abs2)
  then show ?thesis by simp
qed

text \<open>
  C3. The fused score of a (cell, class) pair is
  \<open>sqrt (sigmoid (obj ! cell) * sigmoid (cls ! cell ! c))\<close> and sits at the flat index
  \<open>cell * C + c\<close> of the scoring surface of length \<open>M * C\<close>; conversely every flat index
  \<open>i\<close> decodes to the cell \<open>i div C\<close> and the class \<open>i mod C\<close>, and every candidate a
  level returns for a surviving flat index \<open>i\<close> carries the score at \<open>i\<close>, the label
  \<open>i mod C\<close> and the box decoded from the anchor and the regression of cell \<open>i div C\<close>.
\<close>

theorem flat_index_round_trip:
  assumes "argsort_desc_spec srt"
    and "length obj = M" and "length cls = M" and "length regs = M" and "length anchors = M"
    and "\<forall>row\<in>set cls. length row = num_classes self"
    and "level < length (stride self)"
  shows "\<exists>scores. fuse_scores obj cls = Inr scores \<and> length scores = M * num_classes self \<and>
           (\<forall>cell<M. \<forall>c<num_classes self.
              scores ! (cell * num_classes self + c)
                = sqrt (sigmoid (obj ! cell) * sigmoid (cls ! cell ! c)) \<and>
              (cell * num_classes self + c) div num_classes self = cell \<and>
              (cell * num_classes self + c) mod num_classes self = c) \<and>
           (\<forall>i<M * num_classes self.
              scores ! i = sqrt (sigmoid (obj ! (i div num_classes self)) *
                                 sigmoid (cls ! (i div num_classes self) ! (i mod num_classes self))) \<and>
              i div num_classes self < M \<and> i mod num_classes self < num_classes self) \<and>
           set (level_kept srt self scores M) \<subseteq> {..<M * num_classes self} \<and>
           post_process_level srt self level obj cls regs anchors =
             Inr (map (\<lambda>i. scores ! i) (level_kept srt self scores M),
                  map (\<lambda>i. i mod num_classes self) (level_kept srt self scores M),
                  map (\<lambda>i. decode_box (stride self ! level)
                              (anchors ! (i div num_classes self))
                              (regs ! (i div num_classes self)))
                    (level_kept srt self scores M))"
proof -
  let ?C = "num_classes self"
  define scores where
    "scores = concat (map (\<lambda>(ob, cs). map (\<lambda>c. sqrt (sigmoid ob * sigmoid c)) cs) (zip obj cls))"
  have fs: "fuse_scores obj cls = Inr scores"
    using assms(2,3) by (simp add: fuse_scores_eq scores_def)
  have len: "length scores = M * ?C"
    unfolding scores_def using assms(2,3,6) by (rule fused_length)
  have cellwise: "scores ! (cell * ?C + c) = sqrt (sigmoid (obj ! cell) * sigmoid (cls ! cell ! c))"
    if "cell < M" "c < ?C" for cell c
    unfolding scores_def using assms(2,3,6) that by (rule fused_nth)
  have rt: "(cell * ?C + c) div ?C = cell \<and> (cell * ?C + c) mod ?C = c"
    if "c < ?C" for cell c
    using that by simp
  have flat: "scores ! i = sqrt (sigmoid (obj ! (i div ?C)) * sigmoid (cls ! (i div ?C) ! (i mod ?C)))
              \<and> i div ?C < M \<and> i mod ?C < ?C"
    if "i < M * ?C" for i
  proof -
    from that have pos: "0 < ?C" by (cases "?C = 0") auto
    from that have d: "i div ?C < M" by (simp add: less_mult_imp_div_less)
    from pos have m: "i mod ?C < ?C" by simp
    from cellwise [OF d m] have
      "scores ! (i div ?C * ?C + i mod ?C) =
         sqrt (sigmoid (obj ! (i div ?C)) * sigmoid (cls ! (i div ?C) ! (i mod ?C)))" .
    with d m show ?thesis by simp
  qed
  have sub: "set (level_kept srt self scores M) \<subseteq> {..<M * ?C}"
    using level_kept_set [OF assms(1), of self scores M] len by simp
  have pp: "post_process_level srt self level obj cls regs anchors =
             Inr (map (\<lambda>i. scores ! i) (level_kept srt self scores M),
                  map (\<lambda>i. i mod ?C) (level_kept srt self scores M),
                  map (\<lambda>i. decode_box (stride self ! level) (anchors ! (i div ?C)) (regs ! (i div ?C)))
                    (level_kept srt self scores M))"
    using assms scores_def by (intro post_process_level_eq) simp_all
  show ?thesis
    using fs len cellwise rt flat sub pp by blast
qed

theorem flat_index_round_trip_witness:
  "post_process_level stable_argsort_desc cfg0 0 [0] [ [0, 0] ] [(0, 0, 0, 0)] [(4, 4)] =
     Inr ([1 / 2], [0], [(0, 0, 8, 8)])"
proof -
  have rows: "\<forall>row\<in>set [ [0, 0 :: real] ]. length row = num_classes cfg0"
    by (simp add: cfg0_def)
  have lvl: "0 < length (stride cfg0)" by (simp add: cfg0_def)
  obtain scores where fs: "fuse_scores [0] [ [0, 0] ] = Inr scores"
    and pp: "post_process_level stable_argsort_desc cfg0 0 [0] [ [0, 0] ] [(0, 0, 0, 0)] [(4, 4)] =
             Inr (map (\<lambda>i. scores ! i) (level_kept stable_argsort_desc cfg0 scores 1),
                  map (\<lambda>i. i mod num_classes cfg0) (level_kept stable_argsort_desc cfg0 scores 1),
                  map (\<lambda>i. decode_box (stride cfg0 ! 0)
                              ([(4, 4)] ! (i div num_classes cfg0))
                              ([(0, 0, 0, 0)] ! (i div num_classes cfg0)))
                    (level_kept stable_argsort_desc cfg0 scores 1))"
    using flat_index_round_trip [OF stable_argsort_desc_spec _ _ _ _ rows lvl,
        of "[0]" 1 "[(0, 0, 0, 0)]" "[(4, 4)]"]
    by auto
  have sc: "scores = [1 / 2, 1 / 2]"
    using fs by (auto simp: fuse_scores_eq sigmoid_zero sqrt_quarter)
  have k: "level_kept stable_argsort_desc cfg0 [1 / 2, 1 / 2] 1 = [0]"
    by (simp add: level_kept_def stable_argsort_desc_def cfg0_def slice_to_def)
  show ?thesis
    unfolding pp sc k by (simp add: cfg0_def decode_box_def)
qed

subsection \<open>Top-k selection\<close>

lemma take_sorted_wrt_highest:
  assumes "sorted_wrt P l" and "i \<in> set (take n l)" and "j \<in> set l" and "j \<notin> set (take n l)"
  shows "P i j"
proof -
  have "j \<in> set (drop n l)"
    using assms(3,4) by (metis Un_iff append_take_drop_id set_append)
  moreover have "sorted_wrt P (take n l @ drop n l)" using assms(1) by simp
  ultimately show ?thesis using assms(2) unfolding sorted_wrt_append by blast
qed

text \<open>
  C1, as the code has it. The number of entries kept before thresholding is
  \<^verbatim>\<open>min(topk, reg_pred_i.size(0))\<close>, and \<^verbatim>\<open>reg_pred_i.size(0)\<close> is the number of cells
  \<open>M = H * W\<close>, not the number \<open>M * C\<close> of (cell, class) pairs. For \<open>0 \<le> topk\<close> the
  level selects exactly \<open>min topk M\<close> pairs when there is at least one class (in general
  \<open>min topk (min M (M * C))\<close>), sorted by score descending, and no pair left out has a
  score above a selected one.
\<close>

theorem topk_candidates_count:
  assumes "argsort_desc_spec srt" and "0 \<le> tk" and "length scores = M * C"
    and "topk_candidates srt tk scores M = (ts, ti)"
  shows "length ti = min (nat tk) (min M (M * C)) \<and>
         (0 < C \<longrightarrow> length ti = min (nat tk) M) \<and>
         ts = map (\<lambda>i. scores ! i) ti \<and> distinct ti \<and> set ti \<subseteq> {..<M * C} \<and>
         sorted_wrt (\<lambda>a b. b \<le> a) ts \<and>
         (\<forall>i\<in>set ti. \<forall>j<M * C. j \<notin> set ti \<longrightarrow> scores ! j \<le> scores ! i)"
proof -
  let ?n = "min (nat tk) M"
  have sl: "slice_to (min tk (int M)) xs = take ?n xs" for xs :: "'a list"
  proof -
    have "nat (min tk (int M)) = min (nat tk) M" using assms(2) by linarith
    moreover have "0 \<le> min tk (int M)" using assms(2) by simp
    ultimately show ?thesis by (simp add: slice_to_def)
  qed
  have ti: "ti = take ?n (srt scores)" and ts: "ts = map (\<lambda>i. scores ! i) ti"
    using assms(4) by (auto simp: topk_candidates_eq sl)
  have perm_len: "length (srt scores) = M * C"
  proof -
    have "card (set (srt scores)) = length (srt scores)"
      using argsort_distinct [OF assms(1)] by (rule distinct_card)
    then show ?thesis using argsort_set [OF assms(1), of scores] assms(3) by simp
  qed
  have len: "length ti = min (nat tk) (min M (M * C))"
    using perm_len by (simp add: ti min.assoc)
  have lenC: "length ti = min (nat tk) M" if "0 < C"
  proof -
    from that have "M \<le> M * C" by simp
    with len show ?thesis by simp
  qed
  have dist: "distinct ti"
    using argsort_distinct [OF assms(1)] by (simp add: ti)
  have sub: "set ti \<subseteq> {..<M * C}"
    using argsort_set [OF assms(1), of scores] assms(3) set_take_subset [of ?n "srt scores"]
    by (simp add: ti)
  have srt_ti: "sorted_wrt (\<lambda>i j. scores ! j \<le> scores ! i) ti"
    unfolding ti using argsort_sorted [OF assms(1)] by (rule sorted_wrt_take)
  have sorted_ts: "sorted_wrt (\<lambda>a b. b \<le> a) ts"
    using srt_ti by (simp add: ts sorted_wrt_map)
  have high: "scores ! j \<le> scores ! i" if "i \<in> set ti" "j < M * C" "j \<notin> set ti" for i j
  proof -
    from that(2) have "j \<in> set (srt scores)"
      using argsort_set [OF assms(1), of scores] assms(3) by simp
    from take_sorted_wrt_highest [OF argsort_sorted [OF assms(1)] that(1) [unfolded ti] this
        that(3) [unfolded ti] ]
    show ?thesis .
  qed
  show ?thesis
    using len lenC ts dist sub sorted_ts high by blast
qed

theorem topk_candidates_count_witness:
  "topk_candidates stable_argsort_desc (topk cfg0) [1 / 2, 1 / 2] 1 = ([1 / 2], [0]) \<and>
   length [0 :: nat] = min (nat (topk cfg0)) 1"
proof -
  have e: "topk_candidates stable_argsort_desc (topk cfg0) [1 / 2, 1 / 2] 1 = ([1 / 2], [0])"
    by (simp add: topk_candidates_eq stable_argsort_desc_def slice_to_def cfg0_def)
  have tk: "0 \<le> topk cfg0" by (simp add: cfg0_def)
  have len: "length [1 / 2, 1 / 2 :: real] = 1 * 2" by simp
  from topk_candidates_count [OF stable_argsort_desc_spec tk len e] e
  show ?thesis by simp
qed

text \<open>One cell, two classes and \<open>topk = 1000\<close>: the scoring surface has \<open>H * W * C = 2\<close>
  entries and one is selected.\<close>

theorem topk_candidates_count_counterexample:
  "fuse_scores [0] [ [0, 0] ] = Inr [1 / 2, 1 / 2] \<and>
   length (snd (topk_candidates stable_argsort_desc (topk cfg0) [1 / 2, 1 / 2]
                  (length [(0 :: real, 0 :: real, 0 :: real, 0 :: real)]))) = 1 \<and>
   length (snd (topk_candidates stable_argsort_desc (topk cfg0) [1 / 2, 1 / 2]
                  (length [(0 :: real, 0 :: real, 0 :: real, 0 :: real)])))
     \<noteq> min (nat (topk cfg0)) (1 * 1 * num_classes cfg0)"
  by (simp add: fuse_scores_eq sigmoid_zero sqrt_quarter topk_candidates_eq
      stable_argsort_desc_def slice_to_def cfg0_def)

subsection \<open>Non-maximum suppression\<close>

lemma inter_area_commute: "inter_area a b = inter_area b a"
  by (cases a, cases b) (simp add: inter_area_def min.commute max.commute)

lemma iou_commute: "iou a b = iou b a"
  by (simp add: iou_def Let_def inter_area_commute [of a b] add.commute)

lemma nms_greedy_subset: "set (nms_greedy thr bs xs) \<subseteq> set xs"
  by (induction thr bs xs rule: nms_greedy.induct) auto

lemma nms_greedy_distinct: "distinct xs \<Longrightarrow> distinct (nms_greedy thr bs xs)"
proof (induction thr bs xs rule: nms_greedy.induct)
  case (1 thr bs)
  then show ?case by simp
next
  case (2 thr bs i rest)
  then show ?case using nms_greedy_subset [of thr bs "filter (\<lambda>j. \<not> thr < iou (bs ! i) (bs ! j)) rest"]
    by auto
qed

lemma nms_greedy_pairwise:
  "sorted_wrt (\<lambda>i j. iou (bs ! i) (bs ! j) \<le> thr) (nms_greedy thr bs xs)"
proof (induction thr bs xs rule: nms_greedy.induct)
  case (1 thr bs)
  then show ?case by simp
next
  case (2 thr bs i rest)
  then show ?case using nms_greedy_subset [of thr bs "filter (\<lambda>j. \<not> thr < iou (bs ! i) (bs ! j)) rest"]
    by (auto simp: not_less)
qed

lemma nms_class_label:
  "i \<in> set (nms_class scores labels bboxes thr c) \<Longrightarrow> labels ! i = c \<and> i < length bboxes"
  using nms_greedy_subset [of thr bboxes
      "sort_key (\<lambda>i. - (scores ! i)) (filter (\<lambda>i. labels ! i = c) [0..<length bboxes])"]
  by (auto simp: nms_class_def)

lemma nms_class_pairwise:
  "sorted_wrt (\<lambda>i j. iou (bboxes ! i) (bboxes ! j) \<le> thr) (nms_class scores labels bboxes thr c)"
  unfolding nms_class_def by (rule nms_greedy_pairwise)

lemma nms_keep_label:
  "i \<in> set (nms_keep scores labels bboxes thr n) \<Longrightarrow> labels ! i < n \<and> i < length bboxes"
  by (auto simp: nms_keep_def dest: nms_class_label)

lemma nms_keep_pairwise:
  "sorted_wrt (\<lambda>i j. labels ! i = labels ! j \<longrightarrow> iou (bboxes ! i) (bboxes ! j) \<le> thr)
     (nms_keep scores labels bboxes thr n)"
proof (induction n)
  case 0
  then show ?case by (simp add: nms_keep_def)
next
  case (Suc n)
  have split: "nms_keep scores labels bboxes thr (Suc n) =
                 nms_keep scores labels bboxes thr n @ nms_class scores labels bboxes thr n"
    by (simp add: nms_keep_def)
  have last: "sorted_wrt (\<lambda>i j. labels ! i = labels ! j \<longrightarrow> iou (bboxes ! i) (bboxes ! j) \<le> thr)
                (nms_class scores labels bboxes thr n)"
    using nms_class_pairwise [of bboxes thr scores labels n]
    by (rule sorted_wrt_mono_rel [rotated]) simp
  have cross: "labels ! i \<noteq> labels ! j"
    if "i \<in> set (nms_keep scores labels bboxes thr n)"
      "j \<in> set (nms_class scores labels bboxes thr n)" for i j
    using nms_keep_label [OF that(1)] nms_class_label [OF that(2)] by simp
  show ?case
    unfolding split sorted_wrt_append using Suc.IH last cross by blast
qed

text \<open>
  C2. After \<open>multiclass_nms\<close>, any two retained detections of the same class have an IoU
  of at most the threshold, in either order; nothing is required of detections of
  different classes (\<open>nms_other_class_example\<close> below keeps two identical boxes of two
  classes).
\<close>

theorem multiclass_nms_iou:
  assumes "multiclass_nms scores labels bboxes thr n_cls = (scores', labels', bboxes')"
    and "i < j" and "j < length bboxes'" and "labels' ! i = labels' ! j"
  shows "iou (bboxes' ! i) (bboxes' ! j) \<le> thr \<and> iou (bboxes' ! j) (bboxes' ! i) \<le> thr \<and>
         length scores' = length bboxes' \<and> length labels' = length bboxes'"
proof -
  let ?keep = "nms_keep scores labels bboxes thr n_cls"
  have out: "scores' = map (\<lambda>i. scores ! i) ?keep" "labels' = map (\<lambda>i. labels ! i) ?keep"
    "bboxes' = map (\<lambda>i. bboxes ! i) ?keep"
    using assms(1) by (simp_all add: multiclass_nms_def Let_def)
  have j: "j < length ?keep" and i: "i < length ?keep"
    using assms(2,3) out(3) by simp_all
  have "labels ! (?keep ! i) = labels ! (?keep ! j)"
    using assms(4) i j by (simp add: out(2))
  moreover have "labels ! (?keep ! i) = labels ! (?keep ! j) \<longrightarrow>
                 iou (bboxes ! (?keep ! i)) (bboxes ! (?keep ! j)) \<le> thr"
    using nms_keep_pairwise [of labels bboxes thr scores n_cls] assms(2) j
    by (simp add: sorted_wrt_iff_nth_less)
  ultimately have "iou (bboxes' ! i) (bboxes' ! j) \<le> thr"
    using i j by (simp add: out(3))
  then show ?thesis
    using iou_commute [of "bboxes' ! i" "bboxes' ! j"] out by simp
qed

lemma iou_disjoint_example: "iou (0, 0, 1, 1) (2, 2, 3, 3) = 0"
  by (simp add: iou_def inter_area_def box_area_def)

theorem multiclass_nms_iou_witness:
  "multiclass_nms [9 / 10, 1 / 2] [0, 0] [(0, 0, 1, 1), (2, 2, 3, 3)] (1 / 2) 1 =
     ([9 / 10, 1 / 2], [0, 0], [(0, 0, 1, 1), (2, 2, 3, 3)]) \<and>
   iou (0, 0, 1, 1) (2, 2, 3, 3) \<le> 1 / 2"
proof -
  have e: "multiclass_nms [9 / 10, 1 / 2] [0, 0] [(0, 0, 1, 1), (2, 2, 3, 3)] (1 / 2) 1 =
     ([9 / 10, 1 / 2], [0, 0], [(0, 0, 1, 1), (2, 2, 3, 3)])"
    by (simp add: multiclass_nms_def nms_keep_def nms_class_def iou_disjoint_example)
  from multiclass_nms_iou [OF e, of 0 1] e show ?thesis by simp
qed

lemma nms_identical_example:
  "multiclass_nms [9 / 10, 1 / 2] [0, 0] [(0, 0, 1, 1), (0, 0, 1, 1)] (1 / 2) 1 =
     ([9 / 10], [0], [(0, 0, 1, 1)])"
  by (simp add: multiclass_nms_def nms_keep_def nms_class_def iou_def inter_area_def box_area_def)

lemma nms_other_class_example:
  "multiclass_nms [9 / 10, 1 / 2] [0, 1] [(0, 0, 1, 1), (0, 0, 1, 1)] (1 / 2) 2 =
     ([9 / 10, 1 / 2], [0, 1], [(0, 0, 1, 1), (0, 0, 1, 1)])"
  by (simp add: multiclass_nms_def nms_keep_def nms_class_def iou_def inter_area_def box_area_def
      upt_conv_Cons)

subsection \<open>The whole pipeline\<close>

lemma index_rows_length: "index_rows xs idxs = Inr r \<Longrightarrow> length r = length idxs"
  by (auto simp: index_rows_def split: if_splits)

lemma floor_div_InrD:
  "floor_div idxs c = Inr r \<Longrightarrow> length r = length idxs \<and> (c \<noteq> 0 \<or> idxs = [])"
  by (auto simp: floor_div_def split: if_splits)

lemma torch_cat_InrD: "torch_cat ts = Inr xs \<Longrightarrow> xs = concat ts"
  by (auto simp: torch_cat_def split: if_splits)

lemma cfg0_fields:
  "stride cfg0 = [8, 16, 32]" "num_classes cfg0 = 2" "conf_thresh cfg0 = 1 / 20"
  "nms_thresh cfg0 = 3 / 5" "topk cfg0 = 1000" "no_decode cfg0 = False"
  by (simp_all add: cfg0_def)

lemma views_lvl0:
  "view_obj lvl0 = [0]" "view_cls cfg0 lvl0 = [ [0, 0] ]" "view_reg lvl0 = [(0, 0, 0, 0)]"
  by (simp_all add: view_obj_def view_cls_def view_reg_def permute_view_def view_flat_def
      lvl0_def cfg0_def upt_conv_Cons)

lemma anchors_lvl0:
  "generate_anchors cfg0 0 (lv_h lvl0, lv_w lvl0) = Inr [(4, 4)]"
  by (simp add: generate_anchors_eq permute_view_def view_flat_def lvl0_def cfg0_fields)

lemma level_lvl0:
  "post_process_level stable_argsort_desc cfg0 0 [0] [ [0, 0] ] [(0, 0, 0, 0)] [(4, 4)] =
     Inr ([1 / 2], [0], [(0, 0, 8, 8)])"
  by (simp add: post_process_level_def fuse_scores_eq sigmoid_zero sqrt_quarter
      topk_candidates_eq stable_argsort_desc_def slice_to_def mask_select_def floor_div_def
      index_rows_def py_index_def decode_boxes_def broadcast_rows_def decode_box_def
      bind_err_def cfg0_fields)

lemma nms_single:
  "multiclass_nms [1 / 2] [0] [(0, 0, 8, 8)] thr 2 = ([1 / 2], [0], [(0, 0, 8, 8)])"
  by (simp add: multiclass_nms_def nms_keep_def nms_class_def upt_conv_Cons)

lemma inference_lvl0:
  "inference_single_image stable_argsort_desc cfg0 [lvl0] 8 8 =
     Inr (Detections [(0, 0, 1, 1)] [1 / 2] [0])"
proof -
  have pp: "post_process stable_argsort_desc cfg0 [ [0] ] [ [ [0, 0] ] ] [ [(0, 0, 0, 0)] ] [ [(4, 4)] ] =
              Inr ([(0, 0, 8, 8)], [1 / 2], [0])"
    by (simp add: post_process_def level_lvl0 bind_err_def torch_cat_def nms_single
        cfg0_fields)
  show ?thesis
    by (simp add: inference_single_image_def views_lvl0 anchors_lvl0 pp bind_err_def
        normalize_box_def clip_def cfg0_fields)
qed

lemma torch_cat_nonempty: "ts \<noteq> [] \<Longrightarrow> torch_cat ts = Inr (concat ts)"
  by (simp add: torch_cat_def)

lemma zip_concat_map:
  "(\<And>x. length (F x) = length (G x)) \<Longrightarrow>
   zip (concat (map F xs)) (concat (map G xs)) = concat (map (\<lambda>x. zip (F x) (G x)) xs)"
  by (induction xs) simp_all

lemma zip_permute_view:
  "zip (permute_view H W f) (permute_view H W g) = permute_view H W (\<lambda>r w. (f r w, g r w))"
proof -
  have "zip (concat (map (\<lambda>r. map (f r) [0..<W]) [0..<H])) (concat (map (\<lambda>r. map (g r) [0..<W]) [0..<H]))
        = concat (map (\<lambda>r. zip (map (f r) [0..<W]) (map (g r) [0..<W])) [0..<H])"
    by (rule zip_concat_map) simp
  then show ?thesis
    by (simp add: permute_view_def view_flat_def zip_map_map zip_same_conv_map o_def)
qed

lemma map_permute_view: "map h (permute_view H W f) = permute_view H W (\<lambda>r w. h (f r w))"
  by (simp add: permute_view_def view_flat_def map_concat o_def)

lemma raw_rows_level:
  "map (\<lambda>((tx, ty, tw, th), ob, cs). [tx, ty, tw, th, ob] @ cs)
     (zip (view_reg lv) (zip (map sigmoid (view_obj lv)) (map (map sigmoid) (view_cls self lv))))
   = raw_rows self lv"
  by (simp add: view_reg_def view_obj_def view_cls_def raw_rows_def map_permute_view
      zip_permute_view o_def)

lemma view_lengths:
  "length (view_obj lv) = lv_h lv * lv_w lv" "length (view_cls self lv) = lv_h lv * lv_w lv"
  "length (view_reg lv) = lv_h lv * lv_w lv" "length (raw_rows self lv) = lv_h lv * lv_w lv"
  by (simp_all add: view_obj_def view_cls_def view_reg_def raw_rows_def permute_view_length)

lemma concat_views_length:
  "length (concat (map view_obj preds)) = sum_list (map (\<lambda>lv. lv_h lv * lv_w lv) preds)"
  "length (concat (map (view_cls self) preds)) = sum_list (map (\<lambda>lv. lv_h lv * lv_w lv) preds)"
  "length (concat (map view_reg preds)) = sum_list (map (\<lambda>lv. lv_h lv * lv_w lv) preds)"
  "length (concat (map (raw_rows self) preds)) = sum_list (map (\<lambda>lv. lv_h lv * lv_w lv) preds)"
  by (simp_all add: length_concat o_def view_lengths)

lemma raw_rows_concat:
  "map (\<lambda>((tx, ty, tw, th), ob, cs). [tx, ty, tw, th, ob] @ cs)
     (zip (concat (map view_reg preds))
        (zip (map sigmoid (concat (map view_obj preds)))
             (map (map sigmoid) (concat (map (view_cls self) preds)))))
   = concat (map (raw_rows self) preds)"
proof (induction preds)
  case Nil
  then show ?case by simp
next
  case (Cons lv preds)
  have "map (\<lambda>((tx, ty, tw, th), ob, cs). [tx, ty, tw, th, ob] @ cs)
          (zip (view_reg lv @ concat (map view_reg preds))
             (zip (map sigmoid (view_obj lv) @ map sigmoid (concat (map view_obj preds)))
                  (map (map sigmoid) (view_cls self lv) @
                   map (map sigmoid) (concat (map (view_cls self) preds)))))
        = raw_rows self lv @ concat (map (raw_rows self) preds)"
    using Cons.IH raw_rows_level [of lv self]
    by (simp add: zip_append view_lengths del: map_concat)
  then show ?case by simp
qed

lemma no_decode_rows:
  assumes "no_decode self" and "preds \<noteq> []"
  shows "inference_single_image srt self preds img_h img_w =
           Inr (Raw (concat (map (raw_rows self) preds)))"
proof -
  have cl: "cat_last (concat (map view_reg preds)) (map sigmoid (concat (map view_obj preds)))
              (map (map sigmoid) (concat (map (view_cls self) preds)))
            = Inr (concat (map (raw_rows self) preds))"
    unfolding cat_last_def raw_rows_concat
    by (simp add: concat_views_length del: map_concat)
  show ?thesis
    using assms
    by (simp add: inference_single_image_def torch_cat_nonempty cl bind_err_def Let_def
        del: map_concat)
qed

text \<open>
  C7. With \<^verbatim>\<open>no_decode\<close> set, \<open>inference_single_image\<close> returns the rows of \<open>raw_rows\<close> of all
  levels concatenated: per cell the regression undecoded, then the sigmoid of the
  objectness, then the sigmoids of the class scores; their number is the sum of
  \<open>H * W\<close> over the levels. The result mentions neither the strides, the thresholds,
  \<^verbatim>\<open>topk\<close> nor the sort: anchors, decoding, filtering and NMS take no part.
\<close>

theorem no_decode_output:
  assumes "no_decode self" and "preds \<noteq> []"
  shows "inference_single_image srt self preds img_h img_w =
           Inr (Raw (concat (map (raw_rows self) preds))) \<and>
         length (concat (map (raw_rows self) preds)) =
           sum_list (map (\<lambda>lv. lv_h lv * lv_w lv) preds) \<and>
         (\<forall>lv\<in>set preds. \<forall>r<lv_h lv. \<forall>w<lv_w lv.
            raw_rows self lv ! (r * lv_w lv + w) =
              [lv_reg lv 0 r w, lv_reg lv 1 r w, lv_reg lv 2 r w, lv_reg lv 3 r w,
               sigmoid (lv_obj lv 0 r w)] @
              map (\<lambda>c. sigmoid (lv_cls lv c r w)) [0..<num_classes self])"
proof -
  have inf: "inference_single_image srt self preds img_h img_w =
           Inr (Raw (concat (map (raw_rows self) preds)))"
    using assms by (rule no_decode_rows)
  have rows: "raw_rows self lv ! (r * lv_w lv + w) =
              [lv_reg lv 0 r w, lv_reg lv 1 r w, lv_reg lv 2 r w, lv_reg lv 3 r w,
               sigmoid (lv_obj lv 0 r w)] @
              map (\<lambda>c. sigmoid (lv_cls lv c r w)) [0..<num_classes self]"
    if "r < lv_h lv" "w < lv_w lv" for lv r w
    using that by (simp add: raw_rows_def permute_view_nth)
  show ?thesis
    using inf rows concat_views_length(4) [of self preds] by blast
qed

theorem no_decode_output_witness:
  "inference_single_image stable_argsort_desc cfg_raw [lvl0] 8 8 =
     Inr (Raw [ [0, 0, 0, 0, 1 / 2, 1 / 2, 1 / 2] ])"
proof -
  have nd: "no_decode cfg_raw" by (simp add: cfg_raw_def)
  have ne: "[lvl0] \<noteq> []" by simp
  have "raw_rows cfg_raw lvl0 = [ [0, 0, 0, 0, 1 / 2, 1 / 2, 1 / 2] ]"
    by (simp add: raw_rows_def permute_view_def view_flat_def lvl0_def cfg_raw_def cfg0_def
        sigmoid_zero upt_conv_Cons)
  with no_decode_output [OF nd ne, of stable_argsort_desc 8 8] show ?thesis by simp
qed

lemma view_cls_rows: "\<forall>row\<in>set (view_cls self lv). length row = num_classes self"
  by (auto simp: view_cls_def permute_view_def view_flat_def)

lemma generate_anchors_length:
  assumes "level < length (stride self)"
  shows "\<exists>a. generate_anchors self level (H, W) = Inr a \<and> length a = H * W"
  using generate_anchors_eq [OF assms, of H W] by (simp add: permute_view_length)

lemma loops_total:
  assumes "argsort_desc_spec srt"
  shows "level + length preds \<le> length (stride self) \<Longrightarrow>
         \<exists>as outs. anchors_loop self level preds = Inr as \<and>
           post_process_loop srt self level
             (zip (map view_obj preds) (zip (map (view_cls self) preds) (zip (map view_reg preds) as)))
             = Inr outs \<and> length outs = length preds"
proof (induction preds arbitrary: level)
  case Nil
  then show ?case by simp
next
  case (Cons lv preds)
  from Cons.prems have lvl: "level < length (stride self)" by simp
  from generate_anchors_length [OF lvl, of "lv_h lv" "lv_w lv"]
  obtain a where a: "generate_anchors self level (lv_h lv, lv_w lv) = Inr a"
    and la: "length a = lv_h lv * lv_w lv" by blast
  from Cons.prems have "Suc level + length preds \<le> length (stride self)" by simp
  from Cons.IH [OF this] obtain as outs where
    as: "anchors_loop self (Suc level) preds = Inr as"
    and outs: "post_process_loop srt self (Suc level)
                 (zip (map view_obj preds) (zip (map (view_cls self) preds) (zip (map view_reg preds) as)))
               = Inr outs"
    and lo: "length outs = length preds" by blast
  have "\<exists>out. post_process_level srt self level (view_obj lv) (view_cls self lv) (view_reg lv) a = Inr out"
    using post_process_level_eq [OF assms view_lengths(1) view_lengths(2) view_lengths(3) la
        view_cls_rows lvl refl refl]
    by blast
  then obtain out where
    out: "post_process_level srt self level (view_obj lv) (view_cls self lv) (view_reg lv) a = Inr out"
    by blast
  have "anchors_loop self level (lv # preds) = Inr (a # as)"
    by (simp add: a as bind_err_def)
  moreover have "post_process_loop srt self level
       (zip (map view_obj (lv # preds)) (zip (map (view_cls self) (lv # preds))
          (zip (map view_reg (lv # preds)) (a # as)))) = Inr (out # outs)"
    by (simp add: out outs bind_err_def)
  ultimately show ?case using lo by simp
qed

lemma post_process_total:
  assumes "post_process_loop srt self 0 (zip objs (zip clss (zip regss anchors))) = Inr outs"
    and "outs \<noteq> []"
  shows "\<exists>r. post_process srt self objs clss regss anchors = Inr r"
  using assms
  by (simp add: post_process_def bind_err_def torch_cat_nonempty split: prod.splits)

text \<open>
  C9, as the code has it. Neither \<^verbatim>\<open>__init__\<close> nor \<open>inference_single_image\<close> checks the
  configuration: for every value of \<^verbatim>\<open>topk\<close>, \<^verbatim>\<open>conf_thresh\<close> and \<^verbatim>\<open>nms_thresh\<close>, a call
  on at least one level and no more levels than strides returns a result and raises
  nothing.
\<close>

theorem inference_unvalidated:
  assumes "argsort_desc_spec srt" and "preds \<noteq> []" and "length preds \<le> length (stride self)"
  shows "\<exists>out. inference_single_image srt self preds img_h img_w = Inr out"
proof (cases "no_decode self")
  case True
  from no_decode_rows [OF True assms(2)] show ?thesis by blast
next
  case False
  from loops_total [OF assms(1), of 0 preds self] assms(3)
  obtain as outs where as: "anchors_loop self 0 preds = Inr as"
    and loop: "post_process_loop srt self 0
                 (zip (map view_obj preds) (zip (map (view_cls self) preds) (zip (map view_reg preds) as)))
               = Inr outs"
    and lo: "length outs = length preds"
    by auto
  from lo assms(2) have "outs \<noteq> []" by auto
  from post_process_total [OF loop this] obtain r where
    "post_process srt self (map view_obj preds) (map (view_cls self) preds) (map view_reg preds) as
       = Inr r" by blast
  then show ?thesis
    using False as
    by (simp add: inference_single_image_def bind_err_def Let_def split: prod.splits)
qed

lemma cfg_bad_fields:
  "stride cfg_bad = [8, 16, 32]" "num_classes cfg_bad = 2" "conf_thresh cfg_bad = 1 / 20"
  "nms_thresh cfg_bad = 2" "topk cfg_bad = - 1" "no_decode cfg_bad = False"
  by (simp_all add: cfg_bad_def cfg0_def)

lemma views_lvl0_bad: "view_cls cfg_bad lvl0 = [ [0, 0] ]"
  by (simp add: view_cls_def permute_view_def view_flat_def lvl0_def cfg_bad_fields
      upt_conv_Cons)

lemma anchors_lvl0_bad: "generate_anchors cfg_bad 0 (lv_h lvl0, lv_w lvl0) = Inr [(4, 4)]"
  by (simp add: generate_anchors_eq permute_view_def view_flat_def lvl0_def cfg_bad_fields)

lemma level_lvl0_bad:
  "post_process_level stable_argsort_desc cfg_bad 0 [0] [ [0, 0] ] [(0, 0, 0, 0)] [(4, 4)] =
     Inr ([1 / 2], [0], [(0, 0, 8, 8)])"
  by (simp add: post_process_level_def fuse_scores_eq sigmoid_zero sqrt_quarter
      topk_candidates_eq stable_argsort_desc_def slice_to_def mask_select_def floor_div_def
      index_rows_def py_index_def decode_boxes_def broadcast_rows_def decode_box_def
      bind_err_def cfg_bad_fields)

theorem inference_unvalidated_witness:
  "inference_single_image stable_argsort_desc cfg0 [lvl0] 8 8 =
     Inr (Detections [(0, 0, 1, 1)] [1 / 2] [0]) \<and>
   (\<exists>out. inference_single_image stable_argsort_desc cfg_bad [lvl0] 8 8 = Inr out)"
proof -
  have ne: "[lvl0] \<noteq> []" by simp
  have le: "length [lvl0] \<le> length (stride cfg_bad)" by (simp add: cfg_bad_fields)
  from inference_unvalidated [OF stable_argsort_desc_spec ne le, of 8 8] inference_lvl0
  show ?thesis by simp
qed

text \<open>With \<open>topk = -1\<close> and \<open>nms_thresh = 2\<close> the call returns a detection.\<close>

theorem inference_unvalidated_counterexample:
  "topk cfg_bad < 0 \<and> \<not> (0 \<le> nms_thresh cfg_bad \<and> nms_thresh cfg_bad \<le> 1) \<and>
   inference_single_image stable_argsort_desc cfg_bad [lvl0] 8 8 =
     Inr (Detections [(0, 0, 1, 1)] [1 / 2] [0])"
proof -
  have pp: "post_process stable_argsort_desc cfg_bad [ [0] ] [ [ [0, 0] ] ] [ [(0, 0, 0, 0)] ] [ [(4, 4)] ] =
              Inr ([(0, 0, 8, 8)], [1 / 2], [0])"
    by (simp add: post_process_def level_lvl0_bad bind_err_def torch_cat_def nms_single
        cfg_bad_fields)
  have "inference_single_image stable_argsort_desc cfg_bad [lvl0] 8 8 =
     Inr (Detections [(0, 0, 1, 1)] [1 / 2] [0])"
    by (simp add: inference_single_image_def views_lvl0 views_lvl0_bad anchors_lvl0_bad pp
        bind_err_def normalize_box_def clip_def cfg_bad_fields)
  then show ?thesis by (simp add: cfg_bad_fields)
qed

subsection \<open>Decoding in float32\<close>

lemma f32_overflow_pos: "0 < f32_overflow"
  by (simp add: f32_overflow_def)

lemma f32_tiny_less: "f32_tiny < 1" "0 < f32_tiny" "f32_tiny < f32_overflow"
  by (simp_all add: f32_tiny_def f32_overflow_def)

lemma rnd_cases: "rnd x = PInf \<or> rnd x = NInf \<or> (\<exists>v. rnd x = Fin v)"
  by (simp add: rnd_def)

lemma rnd_nonneg: "0 \<le> x \<Longrightarrow> rnd x = PInf \<or> (\<exists>v. rnd x = Fin v \<and> 0 \<le> v)"
  using f32_overflow_pos by (auto simp: rnd_def)

lemma rnd_mono: "x \<le> y \<Longrightarrow> f_le (rnd x) (rnd y)"
  using f32_overflow_pos f32_tiny_less by (auto simp: rnd_def)

lemma rnd_not_NaN: "rnd x \<noteq> NaN"
  by (simp add: rnd_def)

lemma f_sub_le_add:
  assumes "h = PInf \<or> (\<exists>v. h = Fin v \<and> 0 \<le> v)"
  shows "f_sub c h = NaN \<or> f_add c h = NaN \<or> f_le (f_sub c h) (f_add c h)"
proof (cases c)
  case (Fin x)
  from assms show ?thesis
  proof
    assume "h = PInf" with Fin show ?thesis by (simp add: f_sub_def)
  next
    assume "\<exists>v. h = Fin v \<and> 0 \<le> v"
    then obtain v where v: "h = Fin v" "0 \<le> v" by blast
    then have "f_le (rnd (x - v)) (rnd (x + v))" by (intro rnd_mono) simp
    with Fin v show ?thesis by (simp add: f_sub_def)
  qed
next
  case PInf
  with assms show ?thesis by (auto simp: f_sub_def)
next
  case NInf
  with assms show ?thesis by (auto simp: f_sub_def)
next
  case NaN
  then show ?thesis by (simp add: f_sub_def)
qed

lemma box_size_cases:
  assumes "0 < strd"
  shows "f_mul (f_exp (Fin t)) (Fin (real_of_int strd)) = PInf \<or>
         (\<exists>v. f_mul (f_exp (Fin t)) (Fin (real_of_int strd)) = Fin v \<and> 0 \<le> v)"
proof -
  from rnd_nonneg [of "exp t"] consider "rnd (exp t) = PInf" | v where "rnd (exp t) = Fin v" "0 \<le> v"
    by auto
  then show ?thesis
  proof cases
    case 1
    with assms show ?thesis by (simp add: inf_of_sign_def)
  next
    case 2
    then have "0 \<le> v * real_of_int strd" using assms by simp
    from rnd_nonneg [OF this] 2 show ?thesis by simp
  qed
qed

lemma half_size_cases:
  assumes "w = PInf \<or> (\<exists>v. w = Fin v \<and> 0 \<le> v)"
  shows "f_mul (Fin 0.5) w = PInf \<or> (\<exists>v. f_mul (Fin 0.5) w = Fin v \<and> 0 \<le> v)"
  using assms
proof
  assume "w = PInf" then show ?thesis by (simp add: inf_of_sign_def)
next
  assume "\<exists>v. w = Fin v \<and> 0 \<le> v"
  then obtain v where v: "w = Fin v" "0 \<le> v" by blast
  then have "0 \<le> 0.5 * v" by simp
  from rnd_nonneg [OF this] v show ?thesis by simp
qed

text \<open>
  C10, as the code has it. In float32 the decoded width \<open>exp tw * stride\<close> and height are
  not always strictly positive: they are 0 when \<open>exp\<close> underflows and infinite when it
  overflows, and a corner is NaN when the centre and the size both overflow. For every
  finite grid point, every finite regression and every positive stride, the width and
  the height are non-negative (finite or infinite), and \<open>x1 \<le> x2\<close> and \<open>y1 \<le> y2\<close> hold
  whenever the two corners compared are not NaN.
\<close>

theorem decode_box_f32_ordered:
  assumes "0 < strd" and "decode_box_f32 strd (gx, gy) (tx, ty, tw, th) = (x1, y1, x2, y2)"
  shows "(x1 = NaN \<or> x2 = NaN \<or> f_le x1 x2) \<and> (y1 = NaN \<or> y2 = NaN \<or> f_le y1 y2) \<and>
         (f_mul (f_exp (Fin tw)) (Fin (real_of_int strd)) = PInf \<or>
          (\<exists>v. f_mul (f_exp (Fin tw)) (Fin (real_of_int strd)) = Fin v \<and> 0 \<le> v)) \<and>
         (f_mul (f_exp (Fin th)) (Fin (real_of_int strd)) = PInf \<or>
          (\<exists>v. f_mul (f_exp (Fin th)) (Fin (real_of_int strd)) = Fin v \<and> 0 \<le> v))"
proof -
  let ?s = "Fin (real_of_int strd)"
  let ?w = "f_mul (f_exp (Fin tw)) ?s" and ?h = "f_mul (f_exp (Fin th)) ?s"
  let ?cx = "f_add (Fin gx) (f_mul (Fin tx) ?s)" and ?cy = "f_add (Fin gy) (f_mul (Fin ty) ?s)"
  have w: "?w = PInf \<or> (\<exists>v. ?w = Fin v \<and> 0 \<le> v)" and h: "?h = PInf \<or> (\<exists>v. ?h = Fin v \<and> 0 \<le> v)"
    using assms(1) by (rule box_size_cases)+
  from assms(2) have
    x1: "x1 = f_sub ?cx (f_mul (Fin 0.5) ?w)" and x2: "x2 = f_add ?cx (f_mul (Fin 0.5) ?w)" and
    y1: "y1 = f_sub ?cy (f_mul (Fin 0.5) ?h)" and y2: "y2 = f_add ?cy (f_mul (Fin 0.5) ?h)"
    by (simp_all add: decode_box_f32_def Let_def)
  have "x1 = NaN \<or> x2 = NaN \<or> f_le x1 x2"
    unfolding x1 x2 by (rule f_sub_le_add [OF half_size_cases [OF w]])
  moreover have "y1 = NaN \<or> y2 = NaN \<or> f_le y1 y2"
    unfolding y1 y2 by (rule f_sub_le_add [OF half_size_cases [OF h]])
  ultimately show ?thesis using w h by blast
qed

lemma exp_1_lower: "(5 / 2 :: real) \<le> exp 1"
proof -
  have "(9 / 8 :: real) \<le> exp (1 / 8)"
    using exp_ge_add_one_self [of "1 / 8 :: real"] by simp
  then have "(9 / 8 :: real) ^ 8 \<le> exp (1 / 8) ^ 8"
    by (intro power_mono) simp_all
  also have "exp (1 / 8 :: real) ^ 8 = exp (of_nat 8 * (1 / 8))"
    by (simp only: exp_of_nat_mult)
  also have "\<dots> = exp 1" by simp
  finally have "(9 / 8 :: real) ^ 8 \<le> exp 1" .
  moreover have "(5 / 2 :: real) \<le> (9 / 8) ^ 8" by (simp add: power_divide)
  ultimately show ?thesis by linarith
qed

lemma exp_10_lower: "(9000 :: real) \<le> exp 10"
proof -
  have "(5 / 2 :: real) ^ 10 \<le> exp 1 ^ 10"
    using exp_1_lower by (intro power_mono) simp_all
  also have "exp (1 :: real) ^ 10 = exp (of_nat 10 * 1)"
    by (simp only: exp_of_nat_mult)
  also have "\<dots> = exp 10" by simp
  finally have "(5 / 2 :: real) ^ 10 \<le> exp 10" .
  moreover have "(9000 :: real) \<le> (5 / 2) ^ 10" by (simp add: power_divide)
  ultimately show ?thesis by linarith
qed

lemma exp_100_overflows: "f32_overflow \<le> exp 100"
proof -
  have "(9000 :: real) ^ 10 \<le> exp 10 ^ 10"
    using exp_10_lower by (intro power_mono) simp_all
  also have "exp (10 :: real) ^ 10 = exp (of_nat 10 * 10)"
    by (simp only: exp_of_nat_mult)
  also have "\<dots> = exp 100" by simp
  finally have "(9000 :: real) ^ 10 \<le> exp 100" .
  moreover have "f32_overflow \<le> (9000 :: real) ^ 10"
    by (simp add: f32_overflow_def)
  ultimately show ?thesis by linarith
qed

lemma exp_minus_200_underflows: "exp (- 200 :: real) \<le> f32_tiny"
proof -
  have "(2 :: real) \<le> exp 1"
    using exp_ge_add_one_self [of "1 :: real"] by simp
  then have "(2 :: real) ^ 200 \<le> exp 1 ^ 200"
    by (intro power_mono) simp_all
  also have "exp (1 :: real) ^ 200 = exp (of_nat 200 * 1)"
    by (simp only: exp_of_nat_mult)
  also have "\<dots> = exp 200" by simp
  finally have "(2 :: real) ^ 150 \<le> exp 200" by simp
  then have "1 / exp (200 :: real) \<le> 1 / 2 ^ 150"
    by (intro divide_left_mono) simp_all
  then show ?thesis by (simp add: f32_tiny_def exp_minus inverse_eq_divide)
qed

lemma f_exp_100: "rnd (exp 100) = PInf"
  using exp_100_overflows by (simp add: rnd_def)

lemma f_exp_minus_200: "rnd (exp (- 200)) = Fin 0"
proof -
  have "exp (- 200 :: real) < f32_overflow"
    using exp_minus_200_underflows f32_tiny_less by linarith
  moreover have "- f32_overflow < exp (- 200 :: real)"
    using f32_overflow_pos exp_gt_zero [of "- 200 :: real"] by linarith
  ultimately show ?thesis using exp_minus_200_underflows by (simp add: rnd_def)
qed

lemma rnd_small:
  "rnd 0 = Fin 0" "rnd 1 = Fin 1" "rnd 4 = Fin 4" "rnd 8 = Fin 8" "rnd (1 / 2) = Fin (1 / 2)"
  "rnd 12 = Fin 12" "rnd 16 = Fin 16"
  by (simp_all add: rnd_def f32_overflow_def f32_tiny_def)

lemma rnd_big: "rnd (800000000000000000000000000000000000000) = PInf"
  by (simp add: rnd_def f32_overflow_def)

text \<open>The regression \<open>(1e38, 0, 100, 0)\<close> at the grid point \<open>(4, 4)\<close> with stride 8: the centre
  and the width overflow, \<open>x1\<close> is \<open>inf - inf\<close>, and \<open>NaN \<le> inf\<close> is false. With \<open>tw = -200\<close>
  the width is exactly 0.\<close>

theorem decode_box_f32_ordered_counterexample:
  "decode_box_f32 8 (4, 4) (10 ^ 38, 0, 100, 0) = (NaN, Fin 0, PInf, Fin 8) \<and>
   \<not> f_le NaN PInf \<and>
   f_mul (f_exp (Fin (- 200))) (Fin (real_of_int 8)) = Fin 0"
  by (simp add: decode_box_f32_def f_sub_def f_exp_100 f_exp_minus_200 rnd_small rnd_big
      inf_of_sign_def Let_def)

theorem decode_box_f32_ordered_witness:
  "decode_box_f32 8 (4, 4) (0, 0, 0, 0) = (Fin 0, Fin 0, Fin 8, Fin 8) \<and>
   f_le (Fin 0) (Fin 8)"
proof -
  have e: "decode_box_f32 8 (4, 4) (0, 0, 0, 0) = (Fin 0, Fin 0, Fin 8, Fin 8)"
    by (simp add: decode_box_f32_def f_sub_def rnd_small)
  have "(0 :: int) < 8" by simp
  from decode_box_f32_ordered [OF this e] e show ?thesis by simp
qed

subsection \<open>The whole pipeline in float32\<close>

lemma decode_boxes_f32_length:
  "length as = length rs \<Longrightarrow> decode_boxes_f32 as rs strd = Inr b \<Longrightarrow> length b = length as"
  by (auto simp: decode_boxes_f32_def broadcast_rows_def bind_err_def)

lemma post_process_level_f32_InrD:
  assumes "post_process_level_f32 srt self level obj cls regs anchors = Inr (s, l, b)"
  shows "\<exists>scores. fuse_scores obj cls = Inr scores \<and>
           s = map (\<lambda>i. scores ! i) (level_kept srt self scores (length regs)) \<and>
           l = map (\<lambda>i. i mod num_classes self) (level_kept srt self scores (length regs)) \<and>
           length b = length (level_kept srt self scores (length regs)) \<and>
           (num_classes self \<noteq> 0 \<or> level_kept srt self scores (length regs) = [])"
proof -
  obtain scores where fs: "fuse_scores obj cls = Inr scores"
    using assms
    by (cases "fuse_scores obj cls") (simp_all add: post_process_level_f32_def bind_err_def)
  let ?ti = "slice_to (min (topk self) (int (length regs))) (srt scores)"
  let ?K = "level_kept srt self scores (length regs)"
  have m1: "mask_select (map (\<lambda>i. scores ! i) ?ti)
              (map (\<lambda>s. conf_thresh self < s) (map (\<lambda>i. scores ! i) ?ti)) = map (\<lambda>i. scores ! i) ?K"
    using mask_select_map [of "\<lambda>i. scores ! i" ?ti "\<lambda>s. conf_thresh self < s"]
    by (simp add: level_kept_def o_def)
  have m2: "mask_select ?ti (map (\<lambda>s. conf_thresh self < s) (map (\<lambda>i. scores ! i) ?ti)) = ?K"
    using mask_select_idx [of ?ti "\<lambda>s. conf_thresh self < s" "\<lambda>i. scores ! i"]
    by (simp add: level_kept_def o_def)
  from assms obtain aidx rs as strd where
    fd: "floor_div ?K (num_classes self) = Inr aidx"
    and ir: "index_rows regs aidx = Inr rs" and ia: "index_rows anchors aidx = Inr as"
    and db: "decode_boxes_f32 as rs strd = Inr b"
    and s: "s = map (\<lambda>i. scores ! i) ?K" and l: "l = map (\<lambda>i. i mod num_classes self) ?K"
    unfolding post_process_level_f32_def
    by (auto simp: fs topk_candidates_eq m1 m2 bind_err_def Let_def
        simp del: map_map split: sum.splits)
  have "length as = length rs"
    using index_rows_length [OF ir] index_rows_length [OF ia] by simp
  from decode_boxes_f32_length [OF this db] have "length b = length ?K"
    using index_rows_length [OF ia] floor_div_InrD [OF fd] by simp
  with fs s l floor_div_InrD [OF fd] show ?thesis by blast
qed

lemma post_process_level_f32_ok:
  assumes "argsort_desc_spec srt"
    and "post_process_level_f32 srt self level obj cls regs anchors = Inr out"
  shows "level_ok_f32 self out"
proof -
  obtain s l b where out: "out = (s, l, b)" by (cases out)
  from post_process_level_f32_InrD [OF assms(2) [unfolded out]]
  obtain scores where fs: "fuse_scores obj cls = Inr scores"
    and s: "s = map (\<lambda>i. scores ! i) (level_kept srt self scores (length regs))"
    and l: "l = map (\<lambda>i. i mod num_classes self) (level_kept srt self scores (length regs))"
    and b: "length b = length (level_kept srt self scores (length regs))"
    by blast
  have "conf_thresh self < x \<and> x \<le> 1" if "x \<in> set s" for x
  proof -
    from that s obtain i where i: "i \<in> set (level_kept srt self scores (length regs))"
      and x: "x = scores ! i" by auto
    from i have "conf_thresh self < scores ! i" by (simp add: level_kept_def)
    moreover from i level_kept_set [OF assms(1), of self scores "length regs"]
    have "scores ! i \<in> set scores" by auto
    ultimately show ?thesis using fuse_scores_range [OF fs] x by blast
  qed
  then show ?thesis by (simp add: level_ok_f32_def out s l b)
qed

lemma post_process_loop_f32_ok:
  assumes "argsort_desc_spec srt"
  shows "post_process_loop_f32 srt self level zs = Inr outs \<Longrightarrow>
         \<forall>out\<in>set outs. level_ok_f32 self out"
proof (induction zs arbitrary: level outs)
  case Nil
  then show ?case by simp
next
  case (Cons z zs)
  obtain obj cls regs anchors where z: "z = (obj, cls, regs, anchors)" by (cases z)
  from Cons.prems obtain out rest where
    hd: "post_process_level_f32 srt self level obj cls regs anchors = Inr out"
    and tl: "post_process_loop_f32 srt self (Suc level) zs = Inr rest"
    and outs: "outs = out # rest"
    by (auto simp: z bind_err_def split: sum.splits)
  from post_process_level_f32_ok [OF assms hd] Cons.IH [OF tl] outs show ?case by simp
qed

lemma level_ok_f32_concat:
  assumes "\<forall>out\<in>set outs. level_ok_f32 self out"
  shows "length (concat (map (\<lambda>(s, l, b). s) outs)) = length (concat (map (\<lambda>(s, l, b). b) outs)) \<and>
         length (concat (map (\<lambda>(s, l, b). l) outs)) = length (concat (map (\<lambda>(s, l, b). b) outs)) \<and>
         (\<forall>x\<in>set (concat (map (\<lambda>(s, l, b). s) outs)). conf_thresh self < x \<and> x \<le> 1)"
  using assms by (induction outs) (auto simp: level_ok_f32_def)

lemma nms_greedy_f32_subset: "set (nms_greedy_f32 thr bs xs) \<subseteq> set xs"
  by (induction thr bs xs rule: nms_greedy_f32.induct) auto

lemma nms_keep_f32_label:
  "i \<in> set (nms_keep_f32 scores labels bboxes thr n) \<Longrightarrow> labels ! i < n \<and> i < length bboxes"
  using nms_greedy_f32_subset
  by (fastforce simp: nms_keep_f32_def nms_class_f32_def)

lemma multiclass_nms_f32_sub:
  assumes "multiclass_nms_f32 scores labels bboxes thr n = (scores', labels', bboxes')"
    and "length scores = length bboxes"
  shows "length scores' = length bboxes' \<and> length labels' = length bboxes' \<and>
         set scores' \<subseteq> set scores \<and> set bboxes' \<subseteq> set bboxes \<and> (\<forall>c\<in>set labels'. c < n)"
proof -
  let ?keep = "nms_keep_f32 scores labels bboxes thr n"
  have out: "scores' = map (\<lambda>i. scores ! i) ?keep" "labels' = map (\<lambda>i. labels ! i) ?keep"
    "bboxes' = map (\<lambda>i. bboxes ! i) ?keep"
    using assms(1) by (simp_all add: multiclass_nms_f32_def Let_def)
  have k: "labels ! i < n \<and> i < length bboxes" if "i \<in> set ?keep" for i
    using that by (rule nms_keep_f32_label)
  show ?thesis
    using k assms(2) by (auto simp: out)
qed

lemma post_process_f32_ok:
  assumes "argsort_desc_spec srt"
    and "post_process_f32 srt self objs clss regss anchors = Inr (bboxes, scores, labels)"
  shows "length scores = length bboxes \<and> length labels = length bboxes \<and>
         (\<forall>x\<in>set scores. conf_thresh self < x \<and> x \<le> 1) \<and>
         (\<forall>c\<in>set labels. c < num_classes self)"
proof -
  from assms(2) obtain outs s0 l0 b0 where
    loop: "post_process_loop_f32 srt self 0 (zip objs (zip clss (zip regss anchors))) = Inr outs"
    and s0: "torch_cat (map (\<lambda>(s, l, b). s) outs) = Inr s0"
    and l0: "torch_cat (map (\<lambda>(s, l, b). l) outs) = Inr l0"
    and b0: "torch_cat (map (\<lambda>(s, l, b). b) outs) = Inr b0"
    and nms: "multiclass_nms_f32 s0 l0 b0 (nms_thresh self) (num_classes self)
                = (scores, labels, bboxes)"
    by (auto simp: post_process_f32_def bind_err_def split: sum.splits prod.splits)
  from level_ok_f32_concat [OF post_process_loop_f32_ok [OF assms(1) loop]]
  have len: "length s0 = length b0" and rng: "\<forall>x\<in>set s0. conf_thresh self < x \<and> x \<le> 1"
    using torch_cat_InrD [OF s0] torch_cat_InrD [OF b0] by simp_all
  from multiclass_nms_f32_sub [OF nms len] rng show ?thesis by blast
qed

lemma rnd_unit: "0 \<le> x \<Longrightarrow> x \<le> 1 \<Longrightarrow> \<exists>v. rnd x = Fin v \<and> 0 \<le> v \<and> v \<le> 1"
  by (auto simp: rnd_def f32_overflow_def)

lemma f_clip_unit_or_nan: "unit_or_nan (f_clip c)"
  by (cases c) (simp_all add: unit_or_nan_def)

text \<open>
  C6, as the code has it. Every detection that the pipeline returns has a score strictly
  above \<^verbatim>\<open>conf_thresh\<close> and at most 1 and a class below \<^verbatim>\<open>num_classes\<close>; each of its box
  coordinates, after the division by \<open>max img_h img_w\<close> and the clamping, lies in \<open>[0, 1]\<close>
  or is NaN: the clamp lets a NaN through, and a NaN arises when decoding overflows
  float32.
\<close>

theorem inference_f32_output_bounds:
  assumes "argsort_desc_spec srt"
    and "inference_single_image_f32 srt self preds img_h img_w
           = Inr (Detections_f32 bboxes scores labels)"
  shows "length scores = length bboxes \<and> length labels = length bboxes \<and>
         (\<forall>b\<in>set bboxes. case b of (x1, y1, x2, y2) \<Rightarrow>
            unit_or_nan x1 \<and> unit_or_nan y1 \<and> unit_or_nan x2 \<and> unit_or_nan y2) \<and>
         (\<forall>s\<in>set scores. conf_thresh self < s \<and> s \<le> 1) \<and>
         (\<forall>c\<in>set labels. c < num_classes self)"
proof -
  from assms(2) obtain all_anchors bb where
    pp: "post_process_f32 srt self (map view_obj preds) (map (view_cls self) preds)
           (map view_reg preds) all_anchors = Inr (bb, scores, labels)"
    and bboxes: "bboxes = map (normalize_box_f32 img_h img_w) bb"
    by (auto simp: inference_single_image_f32_def bind_err_def Let_def
        split: if_splits sum.splits prod.splits)
  have "case normalize_box_f32 img_h img_w b of (x1, y1, x2, y2) \<Rightarrow>
          unit_or_nan x1 \<and> unit_or_nan y1 \<and> unit_or_nan x2 \<and> unit_or_nan y2" for b
    by (cases b) (simp add: normalize_box_f32_def Let_def f_clip_unit_or_nan)
  with post_process_f32_ok [OF assms(1) pp] bboxes show ?thesis by auto
qed

lemma view_reg_lvl_big: "view_reg lvl_big = [(100000000000000000000000000000000000000, 0, 100, 0)]"
  "view_obj lvl_big = [0]" "view_cls cfg0 lvl_big = [ [0, 0] ]"
  "generate_anchors cfg0 0 (lv_h lvl_big, lv_w lvl_big) = Inr [(4, 4)]"
  by (simp_all add: view_obj_def view_cls_def view_reg_def permute_view_def view_flat_def
      generate_anchors_eq lvl_big_def cfg0_fields upt_conv_Cons)

lemma decode_big_pow:
  "decode_box_f32 8 (4, 4) (10 ^ 38, 0, 100, 0) = (NaN, Fin 0, PInf, Fin 8)"
  by (simp add: decode_box_f32_def f_sub_def f_exp_100 rnd_small rnd_big inf_of_sign_def Let_def)

lemma decode_big: "decode_box_f32 8 (4, 4) (100000000000000000000000000000000000000, 0, 100, 0) = (NaN, Fin 0, PInf, Fin 8)"
  using decode_big_pow by simp

lemma decode_zero: "decode_box_f32 8 (4, 4) (0, 0, 0, 0) = (Fin 0, Fin 0, Fin 8, Fin 8)"
  by (simp add: decode_box_f32_def f_sub_def rnd_small)

lemma level_f32_examples:
  "post_process_level_f32 stable_argsort_desc cfg0 0 [0] [ [0, 0] ] [(100000000000000000000000000000000000000, 0, 100, 0)] [(4, 4)] =
     Inr ([1 / 2], [0], [(NaN, Fin 0, PInf, Fin 8)])"
  "post_process_level_f32 stable_argsort_desc cfg0 0 [0] [ [0, 0] ] [(0, 0, 0, 0)] [(4, 4)] =
     Inr ([1 / 2], [0], [(Fin 0, Fin 0, Fin 8, Fin 8)])"
  by (simp_all add: post_process_level_f32_def fuse_scores_eq sigmoid_zero sqrt_quarter
      topk_candidates_eq stable_argsort_desc_def slice_to_def mask_select_def floor_div_def
      index_rows_def py_index_def decode_boxes_f32_def broadcast_rows_def decode_big decode_zero
      bind_err_def cfg0_fields)

lemma nms_f32_single:
  "multiclass_nms_f32 [1 / 2] [0] [b] thr 2 = ([1 / 2], [0], [b])"
  by (simp add: multiclass_nms_f32_def nms_keep_f32_def nms_class_f32_def upt_conv_Cons)

lemma normalize_examples:
  "normalize_box_f32 8 8 (NaN, Fin 0, PInf, Fin 8) = (NaN, Fin 0, Fin 1, Fin 1)"
  "normalize_box_f32 8 8 (Fin 0, Fin 0, Fin 8, Fin 8) = (Fin 0, Fin 0, Fin 1, Fin 1)"
  by (simp_all add: normalize_box_f32_def rnd_small)

lemma inference_f32_lvl0:
  "inference_single_image_f32 stable_argsort_desc cfg0 [lvl0] 8 8 =
     Inr (Detections_f32 [(Fin 0, Fin 0, Fin 1, Fin 1)] [1 / 2] [0])"
proof -
  have pp: "post_process_f32 stable_argsort_desc cfg0 [ [0] ] [ [ [0, 0] ] ] [ [(0, 0, 0, 0)] ] [ [(4, 4)] ] =
              Inr ([(Fin 0, Fin 0, Fin 8, Fin 8)], [1 / 2], [0])"
    by (simp add: post_process_f32_def level_f32_examples bind_err_def torch_cat_def
        nms_f32_single cfg0_fields)
  show ?thesis
    by (simp add: inference_single_image_f32_def views_lvl0 anchors_lvl0 pp bind_err_def
        normalize_examples cfg0_fields)
qed

theorem inference_f32_output_bounds_witness:
  "inference_single_image_f32 stable_argsort_desc cfg0 [lvl0] 8 8 =
     Inr (Detections_f32 [(Fin 0, Fin 0, Fin 1, Fin 1)] [1 / 2] [0]) \<and>
   unit_or_nan (Fin 0) \<and> unit_or_nan (Fin 1) \<and>
   conf_thresh cfg0 < 1 / 2 \<and> (0 :: nat) < num_classes cfg0"
  using inference_f32_output_bounds [OF stable_argsort_desc_spec inference_f32_lvl0]
    inference_f32_lvl0
  by simp

text \<open>One cell with the regression \<open>(1e38, 0, 100, 0)\<close>, stride 8 and an image of 8 by 8: the
  returned box is \<open>(NaN, 0, 1, 1)\<close>, and NaN is neither at least 0 nor at most 1.\<close>

theorem inference_f32_output_bounds_counterexample:
  "inference_single_image_f32 stable_argsort_desc cfg0 [lvl_big] 8 8 =
     Inr (Detections_f32 [(NaN, Fin 0, Fin 1, Fin 1)] [1 / 2] [0]) \<and>
   \<not> f_le (Fin 0) NaN \<and> \<not> f_le NaN (Fin 1)"
proof -
  have pp: "post_process_f32 stable_argsort_desc cfg0 [ [0] ] [ [ [0, 0] ] ]
              [ [(100000000000000000000000000000000000000, 0, 100, 0)] ] [ [(4, 4)] ] =
              Inr ([(NaN, Fin 0, PInf, Fin 8)], [1 / 2], [0])"
    by (simp add: post_process_f32_def level_f32_examples bind_err_def torch_cat_def
        nms_f32_single cfg0_fields)
  show ?thesis
    by (simp add: inference_single_image_f32_def view_reg_lvl_big pp bind_err_def
        normalize_examples cfg0_fields)
qed

subsection \<open>Equal scores\<close>

















end
